theory Spec2Isabelle
  imports Main "HOL-Library.Word"
begin

unbundle bit_operations_syntax

section \<open>Heap lifecycle of mimalloc (src/heap.c): data model\<close>

text \<open>
  The model is sequential: one thread runs one operation of \<^verbatim>\<open>heap.c\<close> to completion.
  An atomic read, exchange or compare-and-swap is the plain read or write it performs when
  no other thread interferes (a compare-and-swap succeeds exactly when the expected value is
  there), and assertions are compiled out, as in a release build. A function whose C code
  walks a linked list returns an \<open>option\<close>: \<open>None\<close> stands for a walk that never comes back.

  Every function carries the name of the C function it embeds; a leading underscore is
  dropped (\<open>mi_heap_collect_abandon\<close> is \<^verbatim>\<open>_mi_heap_collect_abandon\<close>).

  Pointers are addresses of a 64-bit target, \<^verbatim>\<open>NULL\<close> is address 0. Heap objects, thread-local
  descriptors, pages and the link word of free blocks live in separate stores, each indexed
  by address. A store is total: it keeps the last image of an object whose storage was
  released, and the set \<open>freed\<close> records the heap objects that were released.
\<close>

type_synonym addr = "64 word"

text \<open>
  \<^verbatim>\<open>mi_page_t\<close>, restricted to what \<^verbatim>\<open>heap.c\<close> observes. \<open>page_start\<close> is the address that
  \<^verbatim>\<open>_mi_page_start(_mi_page_segment(page), page, NULL)\<close> returns and \<open>block_size\<close> is the
  value of \<^verbatim>\<open>mi_page_block_size(page)\<close>; \<open>free\<close> lists the blocks on the page's free list,
  first to last.
\<close>

record mi_page =
  page_heap :: addr
  capacity :: "16 word"
  reserved :: "16 word"
  used :: "32 word"
  block_size :: "64 word"
  page_start :: addr
  free :: "addr list"

text \<open>
  \<^verbatim>\<open>mi_heap_t\<close>. \<open>pages i\<close> is the queue of bin \<open>i\<close>: the pages linked from
  \<^verbatim>\<open>heap->pages[i].first\<close> through \<^verbatim>\<open>page->next\<close>, first to last (the links themselves belong
  to the page-queue module). \<open>key0\<close> and \<open>key1\<close> are \<^verbatim>\<open>key[0]\<close> and \<^verbatim>\<open>key[1]\<close>.
\<close>

record mi_heap =
  tld :: addr
  pages :: "nat \<Rightarrow> addr list"
  thread_delayed_free :: addr
  thread_id :: addr
  cookie :: "64 word"
  key0 :: "64 word"
  key1 :: "64 word"
  page_count :: "64 word"
  no_reclaim :: bool
  abandoned_next :: addr

record mi_tld =
  heap_backing :: addr

text \<open>
  The allocator state: the stores, the process-wide \<^verbatim>\<open>abandoned\<close> stack head, and the calling
  thread's default-heap slot.
\<close>

record state =
  heaps :: "addr \<Rightarrow> mi_heap"
  tlds :: "addr \<Rightarrow> mi_tld"
  page_tab :: "addr \<Rightarrow> mi_page"
  mem :: "addr \<Rightarrow> 64 word"
  abandoned :: addr
  default_heap :: addr
  freed :: "addr set"

datatype mi_collect_t = NORMAL | FORCE | ABANDON

fun collect_rank :: "mi_collect_t \<Rightarrow> nat" where
  "collect_rank NORMAL = 0"
| "collect_rank FORCE = 1"
| "collect_rank ABANDON = 2"

datatype stat_kind = Stat_giant | Stat_huge

text \<open>
  What \<^verbatim>\<open>heap.c\<close> uses and does not define: constants of \<^verbatim>\<open>mimalloc-types.h\<close> and functions
  of the page, segment, OS, statistics and initialisation modules. None of them is under
  src/, so every function below takes them as the parameter \<open>X\<close>, and a theorem about all
  \<open>X\<close> holds for whatever those modules do. Each field carries the name of the C entity it
  stands for (a leading underscore is dropped).
\<close>

record env =
  MI_BIN_FULL :: nat
  MI_LARGE_OBJ_SIZE_MAX :: "64 word"
  MI_HUGE_OBJ_SIZE_MAX :: "64 word"
  mi_deferred_free :: "addr \<Rightarrow> bool \<Rightarrow> state \<Rightarrow> state"
  mi_heap_delayed_free :: "addr \<Rightarrow> state \<Rightarrow> state"
  mi_heap_collect_retired :: "addr \<Rightarrow> bool \<Rightarrow> state \<Rightarrow> state"
  mi_segment_thread_collect :: "addr \<Rightarrow> state \<Rightarrow> state"
  mi_mem_collect :: "addr \<Rightarrow> state \<Rightarrow> state"
  mi_is_main_thread :: "state \<Rightarrow> bool"
  mi_stats_done :: "addr \<Rightarrow> state \<Rightarrow> state"
  mi_segments_absorb :: "addr \<Rightarrow> addr \<Rightarrow> addr \<Rightarrow> state \<Rightarrow> state"
  mi_page_free_collect :: "addr \<Rightarrow> bool \<Rightarrow> state \<Rightarrow> state"
  mi_segment_page_free :: "addr \<Rightarrow> bool \<Rightarrow> addr \<Rightarrow> state \<Rightarrow> state"
  mi_stat_decrease :: "stat_kind \<Rightarrow> addr \<Rightarrow> 64 word \<Rightarrow> state \<Rightarrow> state"
  mi_ptr_segment :: "addr \<Rightarrow> addr"
  mi_ptr_cookie :: "addr \<Rightarrow> 64 word"
  mi_segment_cookie :: "state \<Rightarrow> addr \<Rightarrow> 64 word"
  mi_segment_page_of :: "state \<Rightarrow> addr \<Rightarrow> addr \<Rightarrow> addr"

text \<open>
  \<^verbatim>\<open>MI_INTPTR_SIZE\<close> is the size of a pointer in bytes: 8 on the 64-bit target that \<open>addr\<close>
  fixes.
\<close>

definition MI_INTPTR_SIZE :: "64 word" where
  "MI_INTPTR_SIZE = 8"

text \<open>
  Modelled from the spec: \<^verbatim>\<open>mi_heap_is_initialized\<close>, \<^verbatim>\<open>mi_heap_is_backing\<close> and
  \<^verbatim>\<open>mi_heap_is_default\<close> are inline functions of \<^verbatim>\<open>mimalloc-internal.h\<close>, which is not under
  src/. The spec: a heap is initialized iff its \<^verbatim>\<open>tld\<close> pointer is non-null; the descriptor's
  \<^verbatim>\<open>heap_backing\<close> field names the backing heap; the default heap is the one in the calling
  thread's default-heap slot.
\<close>

definition mi_heap_is_initialized :: "state \<Rightarrow> addr \<Rightarrow> bool" where
  "mi_heap_is_initialized s heap = (tld (heaps s heap) \<noteq> 0)"

definition mi_heap_is_backing :: "state \<Rightarrow> addr \<Rightarrow> bool" where
  "mi_heap_is_backing s heap = (heap_backing (tlds s (tld (heaps s heap))) = heap)"

definition mi_heap_is_default :: "state \<Rightarrow> addr \<Rightarrow> bool" where
  "mi_heap_is_default s heap = (heap = default_heap s)"

text \<open>Writing a field of the heap object at address \<open>heap\<close>.\<close>

definition upd_heap :: "addr \<Rightarrow> (mi_heap \<Rightarrow> mi_heap) \<Rightarrow> state \<Rightarrow> state" where
  "upd_heap heap f s = s\<lparr>heaps := (heaps s)(heap := f (heaps s heap))\<rparr>"

text \<open>
  Modelled from the spec: \<^verbatim>\<open>mi_get_default_heap\<close> and \<^verbatim>\<open>_mi_heap_set_default_direct\<close> belong to
  the initialisation module, not under src/; they read and write the calling thread's
  default-heap slot. \<^verbatim>\<open>mi_free\<close> applied to a heap object and \<^verbatim>\<open>_mi_heap_backing_free\<close> are not
  under src/ either; the spec says of both that the heap's storage is released.
\<close>

definition mi_get_default_heap :: "state \<Rightarrow> addr" where
  "mi_get_default_heap s = default_heap s"

definition mi_heap_set_default_direct :: "addr \<Rightarrow> state \<Rightarrow> state" where
  "mi_heap_set_default_direct heap s = s\<lparr>default_heap := heap\<rparr>"

definition mi_free :: "addr \<Rightarrow> state \<Rightarrow> state" where
  "mi_free p s = s\<lparr>freed := insert p (freed s)\<rparr>"

definition mi_heap_backing_free :: "addr \<Rightarrow> state \<Rightarrow> state" where
  "mi_heap_backing_free heap s = s\<lparr>freed := insert heap (freed s)\<rparr>"

text \<open>
  The bins a loop \<^verbatim>\<open>for (size_t i = 0; i <= MI_BIN_FULL; i++)\<close> runs through, in order.
\<close>

definition all_bins :: "env \<Rightarrow> nat list" where
  "all_bins X = [0..<Suc (MI_BIN_FULL X)]"

section \<open>Helpers: visiting the pages of a heap\<close>

text \<open>
  \<^verbatim>\<open>heap_page_visitor_fun\<close>: a visitor gets the heap, the queue (here its bin index) and the
  page; what it reaches through \<^verbatim>\<open>arg1\<close> and \<^verbatim>\<open>arg2\<close> is the value of type \<open>'a\<close> it takes
  and returns. It returns \<open>False\<close> to break.

  \<open>visit_queue\<close> is the inner \<^verbatim>\<open>while (page != NULL)\<close> loop over one queue and \<open>visit_bins\<close>
  the outer \<^verbatim>\<open>for\<close> loop over the bins. The queue is read when the outer loop reaches its bin;
  the inner loop saves \<^verbatim>\<open>page->next\<close> before each call, so a visitor may unlink the page it
  is given. No visitor of \<^verbatim>\<open>heap.c\<close> relinks any other page.
\<close>

type_synonym 'a heap_page_visitor_fun =
  "addr \<Rightarrow> nat \<Rightarrow> addr \<Rightarrow> 'a \<Rightarrow> state \<Rightarrow> bool \<times> 'a \<times> state"

fun visit_queue ::
  "(addr \<Rightarrow> 'a \<Rightarrow> state \<Rightarrow> bool \<times> 'a \<times> state) \<Rightarrow> addr list \<Rightarrow> 'a \<Rightarrow> state \<Rightarrow> bool \<times> 'a \<times> state"
where
  "visit_queue fn [] a s = (True, a, s)"
| "visit_queue fn (page # rest) a s =
     (case fn page a s of
        (ok, a', s') \<Rightarrow> if \<not> ok then (False, a', s') else visit_queue fn rest a' s')"

fun visit_bins ::
  "'a heap_page_visitor_fun \<Rightarrow> addr \<Rightarrow> nat list \<Rightarrow> 'a \<Rightarrow> state \<Rightarrow> bool \<times> 'a \<times> state"
where
  "visit_bins fn heap [] a s = (True, a, s)"
| "visit_bins fn heap (i # rest) a s =
     (case visit_queue (fn heap i) (pages (heaps s heap) i) a s of
        (ok, a', s') \<Rightarrow> if \<not> ok then (False, a', s') else visit_bins fn heap rest a' s')"

definition mi_heap_visit_pages ::
  "env \<Rightarrow> 'a heap_page_visitor_fun \<Rightarrow> addr \<Rightarrow> 'a \<Rightarrow> state \<Rightarrow> bool \<times> 'a \<times> state"
where
  "mi_heap_visit_pages X fn heap a s =
     (if heap = 0 \<or> page_count (heaps s heap) = 0 then (False, a, s)
      else visit_bins fn heap (all_bins X) a s)"

section \<open>Analysis: \<^verbatim>\<open>mi_heap_check_owned\<close>\<close>

text \<open>
  \<^verbatim>\<open>mi_heap_page_check_owned\<close>: \<^verbatim>\<open>arg1\<close> is the pointer \<open>p\<close>, \<^verbatim>\<open>arg2\<close> points to the flag
  \<open>found\<close>. \<open>page_area_end\<close> is its local \<^verbatim>\<open>end\<close>; the product is taken in \<^verbatim>\<open>size_t\<close>.
\<close>

definition page_area_end :: "mi_page \<Rightarrow> addr" where
  "page_area_end pg = page_start pg + ucast (capacity pg) * block_size pg"

definition mi_heap_page_check_owned :: "addr \<Rightarrow> bool heap_page_visitor_fun" where
  "mi_heap_page_check_owned p heap pq page found s =
     (let start = page_start (page_tab s page);
          end = page_area_end (page_tab s page);
          found' = (start \<le> p \<and> p < end)
      in (\<not> found', found', s))"

definition mi_heap_check_owned :: "env \<Rightarrow> state \<Rightarrow> addr \<Rightarrow> addr \<Rightarrow> bool" where
  "mi_heap_check_owned X s heap p =
     (if \<not> mi_heap_is_initialized s heap then False
      else if p AND (MI_INTPTR_SIZE - 1) \<noteq> 0 then False
      else fst (snd (mi_heap_visit_pages X (mi_heap_page_check_owned p) heap False s)))"

definition mi_check_owned :: "env \<Rightarrow> state \<Rightarrow> addr \<Rightarrow> bool" where
  "mi_check_owned X s p = mi_heap_check_owned X s (mi_get_default_heap s) p"

text \<open>
  The reading of \<^verbatim>\<open>check_owned\<close> in section 4.4 of the specification, word for word: \<open>p\<close> is
  aligned to the machine word and is the base of a block of a page of the heap that is not
  on the page's free list.
\<close>

definition spec_block_base :: "mi_page \<Rightarrow> addr \<Rightarrow> bool" where
  "spec_block_base pg p =
     (\<exists>i \<in> set [0..<unat (capacity pg)]. p = page_start pg + of_nat i * block_size pg)"

definition spec_check_owned :: "env \<Rightarrow> state \<Rightarrow> addr \<Rightarrow> addr \<Rightarrow> bool" where
  "spec_check_owned X s heap p =
     (p AND (MI_INTPTR_SIZE - 1) = 0 \<and>
      (\<exists>i \<in> set (all_bins X). \<exists>page \<in> set (pages (heaps s heap) i).
          spec_block_base (page_tab s page) p \<and> p \<notin> set (free (page_tab s page))))"

section \<open>Delayed-free links and page-queue append\<close>

text \<open>
  Modelled from the spec: \<^verbatim>\<open>mi_block_nextx\<close> and \<^verbatim>\<open>mi_block_set_nextx\<close> are inline functions
  of \<^verbatim>\<open>mimalloc-internal.h\<close>, not under src/. Section 4.2 of the spec: reading or writing
  \<^verbatim>\<open>next\<close> always XOR-encodes against the heap's \<^verbatim>\<open>key[0..1]\<close>. Their first argument (the
  heap) is not used by this encoding and is left out.
\<close>

definition mi_ptr_encode :: "64 word \<Rightarrow> 64 word \<Rightarrow> addr \<Rightarrow> 64 word" where
  "mi_ptr_encode k0 k1 p = (p XOR k0) XOR k1"

definition mi_ptr_decode :: "64 word \<Rightarrow> 64 word \<Rightarrow> 64 word \<Rightarrow> addr" where
  "mi_ptr_decode k0 k1 x = (x XOR k1) XOR k0"

definition mi_block_nextx :: "state \<Rightarrow> addr \<Rightarrow> 64 word \<Rightarrow> 64 word \<Rightarrow> addr" where
  "mi_block_nextx s block k0 k1 = mi_ptr_decode k0 k1 (mem s block)"

definition mi_block_set_nextx :: "addr \<Rightarrow> addr \<Rightarrow> 64 word \<Rightarrow> 64 word \<Rightarrow> state \<Rightarrow> state" where
  "mi_block_set_nextx block next k0 k1 s = s\<lparr>mem := (mem s)(block := mi_ptr_encode k0 k1 next)\<rparr>"

text \<open>
  Modelled from the spec: \<^verbatim>\<open>_mi_page_queue_append(heap, pq, append)\<close> belongs to the page-queue
  module, not under src/. Section 4.1 and the absorb protocol of the spec: it splices the
  queue \<^verbatim>\<open>append\<close> onto the tail of \<^verbatim>\<open>pq\<close>, sets the owner of each spliced page to \<^verbatim>\<open>heap\<close>, and
  returns the number of pages spliced. \<^verbatim>\<open>pq\<close> is bin \<open>i\<close> of \<open>heap\<close> and \<^verbatim>\<open>append\<close> is bin \<open>i\<close>
  of \<open>from\<close>.
\<close>

definition set_page_heap :: "addr \<Rightarrow> addr \<Rightarrow> (addr \<Rightarrow> mi_page) \<Rightarrow> (addr \<Rightarrow> mi_page)" where
  "set_page_heap heap page t = t(page := (t page)\<lparr>page_heap := heap\<rparr>)"

definition mi_page_queue_append :: "addr \<Rightarrow> nat \<Rightarrow> addr \<Rightarrow> state \<Rightarrow> 64 word \<times> state" where
  "mi_page_queue_append heap i from s =
     (let append = pages (heaps s from) i;
          s1 = s\<lparr>page_tab := fold (set_page_heap heap) append (page_tab s)\<rparr>
      in (of_nat (length append),
          upd_heap heap (\<lambda>h. h\<lparr>pages := (pages h)(i := pages h i @ append)\<rparr>) s1))"

section \<open>Safe heap delete: \<^verbatim>\<open>mi_heap_absorb\<close>\<close>

text \<open>
  \<^verbatim>\<open>mi_heap_reset_pages\<close>. The queues are copied from \<^verbatim>\<open>_mi_heap_empty.pages\<close>, the canonical
  empty heap, in which every queue is empty. \<^verbatim>\<open>pages_free_direct\<close>, which it also clears, is
  a cache of the allocation fast path and has no field here.
\<close>

definition mi_heap_reset_pages :: "addr \<Rightarrow> state \<Rightarrow> state" where
  "mi_heap_reset_pages heap s =
     upd_heap heap (\<lambda>h. h\<lparr>pages := (\<lambda>_. []), thread_delayed_free := 0, page_count := 0\<rparr>) s"

text \<open>The body of the \<^verbatim>\<open>for\<close> loop of \<^verbatim>\<open>mi_heap_absorb\<close> for bin \<open>i\<close>.\<close>

definition absorb_bin :: "addr \<Rightarrow> addr \<Rightarrow> nat \<Rightarrow> state \<Rightarrow> state" where
  "absorb_bin heap from i s =
     (case mi_page_queue_append heap i from s of
        (pcount, s1) \<Rightarrow>
          upd_heap from (\<lambda>h. h\<lparr>page_count := page_count h - pcount\<rparr>)
            (upd_heap heap (\<lambda>h. h\<lparr>page_count := page_count h + pcount\<rparr>) s1))"

text \<open>
  The \<^verbatim>\<open>while\<close> loop of \<^verbatim>\<open>mi_heap_absorb\<close> that finds the end of the stolen list and re-encodes
  it: it returns the last block. On a cyclic list the loop does not return (\<open>None\<close>).
\<close>

partial_function (option) absorb_reencode :: "addr \<Rightarrow> addr \<Rightarrow> addr \<Rightarrow> state \<Rightarrow> (addr \<times> state) option"
where
  "absorb_reencode heap from last' s =
     (let next = mi_block_nextx s last' (key0 (heaps s from)) (key1 (heaps s from)) in
      if next \<noteq> 0
      then absorb_reencode heap from next
             (mi_block_set_nextx last' next (key0 (heaps s heap)) (key1 (heaps s heap)) s)
      else Some (last', s))"

definition mi_heap_absorb :: "env \<Rightarrow> addr \<Rightarrow> addr \<Rightarrow> state \<Rightarrow> state option" where
  "mi_heap_absorb X heap from s =
     (if from = 0 \<or> page_count (heaps s from) = 0 then Some s
      else
        let s1 = fold (absorb_bin heap from) (all_bins X) s;
            first = thread_delayed_free (heaps s1 from);
            s2 = upd_heap from (\<lambda>h. h\<lparr>thread_delayed_free := 0\<rparr>) s1
        in if first \<noteq> 0
           then (case absorb_reencode heap from first s2 of
                   None \<Rightarrow> None
                 | Some (last', s3) \<Rightarrow>
                     let block = thread_delayed_free (heaps s3 heap);
                         s4 = mi_block_set_nextx last' block
                                (key0 (heaps s3 heap)) (key1 (heaps s3 heap)) s3;
                         s5 = upd_heap heap (\<lambda>h. h\<lparr>thread_delayed_free := first\<rparr>) s4
                     in Some (mi_heap_reset_pages from s5))
           else Some (mi_heap_reset_pages from s2))"

text \<open>\<^verbatim>\<open>mi_heap_free\<close>, called from \<^verbatim>\<open>mi_heap_destroy\<close> and \<^verbatim>\<open>mi_heap_delete\<close>.\<close>

definition mi_heap_free :: "addr \<Rightarrow> state \<Rightarrow> state" where
  "mi_heap_free heap s =
     (if mi_heap_is_backing s heap then s
      else
        let s1 = (if mi_heap_is_default s heap
                  then mi_heap_set_default_direct (heap_backing (tlds s (tld (heaps s heap)))) s
                  else s)
        in mi_free heap s1)"

section \<open>Heap abandon and reclaim\<close>

text \<open>
  \<^verbatim>\<open>mi_heap_prepend_abandoned\<close>. \<open>abandoned_last\<close> is its \<^verbatim>\<open>while\<close> loop that finds the end of
  the list starting at \<^verbatim>\<open>first\<close>; on a cyclic list it does not return (\<open>None\<close>).
\<close>

partial_function (option) abandoned_last :: "state \<Rightarrow> addr \<Rightarrow> addr option" where
  "abandoned_last s last' =
     (if abandoned_next (heaps s last') \<noteq> 0
      then abandoned_last s (abandoned_next (heaps s last'))
      else Some last')"

definition mi_heap_prepend_abandoned :: "addr \<Rightarrow> state \<Rightarrow> state option" where
  "mi_heap_prepend_abandoned first s =
     (if first = 0 then Some s
      else if abandoned s = 0 then Some (s\<lparr>abandoned := first\<rparr>)
      else (case abandoned_last s first of
              None \<Rightarrow> None
            | Some last' \<Rightarrow>
                let next = abandoned s;
                    s1 = upd_heap last' (\<lambda>h. h\<lparr>abandoned_next := next\<rparr>) s
                in Some (s1\<lparr>abandoned := first\<rparr>)))"

text \<open>
  The \<^verbatim>\<open>do ... while (reclaim != NULL)\<close> loop of \<^verbatim>\<open>_mi_heap_try_reclaim_abandoned\<close>, which
  absorbs every heap of the claimed list.
\<close>

partial_function (option) reclaim_loop :: "env \<Rightarrow> addr \<Rightarrow> addr \<Rightarrow> state \<Rightarrow> state option" where
  "reclaim_loop X heap reclaim s =
     (let next = abandoned_next (heaps s reclaim) in
      case mi_heap_absorb X heap reclaim s of
        None \<Rightarrow> None
      | Some s1 \<Rightarrow>
          let s2 = mi_segments_absorb X (thread_id (heaps s1 heap)) (tld (heaps s1 heap))
                     (tld (heaps s1 reclaim)) s1;
              s3 = mi_heap_backing_free reclaim s2
          in if next \<noteq> 0 then reclaim_loop X heap next s3 else Some s3)"

definition mi_heap_try_reclaim_abandoned :: "env \<Rightarrow> addr \<Rightarrow> bool \<Rightarrow> state \<Rightarrow> state option" where
  "mi_heap_try_reclaim_abandoned X heap all s =
     (if no_reclaim (heaps s heap) then Some s
      else if abandoned s = 0 then Some s
      else
        let reclaim = abandoned s;
            s1 = s\<lparr>abandoned := 0\<rparr>
        in (case (if \<not> all
                  then (let next = abandoned_next (heaps s1 reclaim);
                            s2 = upd_heap reclaim (\<lambda>h. h\<lparr>abandoned_next := 0\<rparr>) s1
                        in mi_heap_prepend_abandoned next s2)
                  else Some s1) of
              None \<Rightarrow> None
            | Some s3 \<Rightarrow> reclaim_loop X heap reclaim s3))"

section \<open>Collect\<close>

definition mi_heap_collect_ex :: "env \<Rightarrow> addr \<Rightarrow> mi_collect_t \<Rightarrow> state \<Rightarrow> state option" where
  "mi_heap_collect_ex X heap collect s =
     (if \<not> mi_heap_is_initialized s heap then Some s
      else
        let s1 = mi_deferred_free X heap (collect_rank collect > collect_rank NORMAL) s
        in (case mi_heap_try_reclaim_abandoned X heap (collect = FORCE) s1 of
              None \<Rightarrow> None
            | Some s2 \<Rightarrow>
                let s3 = mi_heap_delayed_free X heap s2;
                    s4 = mi_heap_collect_retired X heap True s3;
                    s5 = (if collect_rank collect \<ge> collect_rank FORCE
                          then mi_segment_thread_collect X (tld (heaps s4 heap)) s4 else s4);
                    s6 = (if collect_rank collect \<ge> collect_rank FORCE \<and> mi_is_main_thread X s5
                          then mi_mem_collect X (tld (heaps s5 heap)) s5 else s5)
                in Some s6))"

definition mi_heap_collect :: "env \<Rightarrow> addr \<Rightarrow> bool \<Rightarrow> state \<Rightarrow> state option" where
  "mi_heap_collect X heap force s = mi_heap_collect_ex X heap (if force then FORCE else NORMAL) s"

definition mi_collect :: "env \<Rightarrow> bool \<Rightarrow> state \<Rightarrow> state option" where
  "mi_collect X force s = mi_heap_collect X (mi_get_default_heap s) force s"

text \<open>\<^verbatim>\<open>_mi_heap_collect_abandon\<close>.\<close>

definition mi_heap_collect_abandon :: "env \<Rightarrow> addr \<Rightarrow> state \<Rightarrow> state option" where
  "mi_heap_collect_abandon X heap s =
     (case mi_heap_collect_ex X heap ABANDON s of
        None \<Rightarrow> None
      | Some s1 \<Rightarrow>
          let s2 = mi_stats_done X (tld (heaps s1 heap)) s1
          in if page_count (heaps s2 heap) = 0 then Some (mi_heap_backing_free heap s2)
             else mi_heap_prepend_abandoned heap
                    (upd_heap heap (\<lambda>h. h\<lparr>abandoned_next := 0\<rparr>) s2))"

section \<open>Heap destroy and delete\<close>

text \<open>
  \<^verbatim>\<open>_mi_heap_page_destroy\<close> in a build without detailed statistics (\<^verbatim>\<open>MI_STAT <= 1\<close>).
\<close>

definition mi_heap_page_destroy :: "env \<Rightarrow> unit heap_page_visitor_fun" where
  "mi_heap_page_destroy X heap pq page u s =
     (let bsize = block_size (page_tab s page);
          s1 = (if bsize > MI_LARGE_OBJ_SIZE_MAX X
                then (if bsize > MI_HUGE_OBJ_SIZE_MAX X
                      then mi_stat_decrease X Stat_giant (tld (heaps s heap)) bsize s
                      else mi_stat_decrease X Stat_huge (tld (heaps s heap)) bsize s)
                else s);
          s2 = s1\<lparr>page_tab := (page_tab s1)(page := (page_tab s1 page)\<lparr>used := 0\<rparr>)\<rparr>;
          s3 = mi_segment_page_free X page False (tld (heaps s2 heap)) s2
      in (True, u, s3))"

definition mi_heap_destroy_pages :: "env \<Rightarrow> addr \<Rightarrow> state \<Rightarrow> state" where
  "mi_heap_destroy_pages X heap s =
     mi_heap_reset_pages heap (snd (snd (mi_heap_visit_pages X (mi_heap_page_destroy X) heap () s)))"

definition mi_heap_delete :: "env \<Rightarrow> addr \<Rightarrow> state \<Rightarrow> state option" where
  "mi_heap_delete X heap s =
     (if \<not> mi_heap_is_initialized s heap then Some s
      else (case (if \<not> mi_heap_is_backing s heap
                  then mi_heap_absorb X (heap_backing (tlds s (tld (heaps s heap)))) heap s
                  else mi_heap_collect_abandon X heap s) of
              None \<Rightarrow> None
            | Some s1 \<Rightarrow> Some (mi_heap_free heap s1)))"

definition mi_heap_destroy :: "env \<Rightarrow> addr \<Rightarrow> state \<Rightarrow> state option" where
  "mi_heap_destroy X heap s =
     (if \<not> mi_heap_is_initialized s heap then Some s
      else if \<not> no_reclaim (heaps s heap) then mi_heap_delete X heap s
      else Some (mi_heap_free heap (mi_heap_destroy_pages X heap s)))"

text \<open>\<^verbatim>\<open>mi_heap_set_default\<close> returns the previous default heap, or \<^verbatim>\<open>NULL\<close>.\<close>

definition mi_heap_set_default :: "addr \<Rightarrow> state \<Rightarrow> addr \<times> state" where
  "mi_heap_set_default heap s =
     (if \<not> mi_heap_is_initialized s heap then (0, s)
      else (mi_get_default_heap s, mi_heap_set_default_direct heap s))"

section \<open>Analysis: \<^verbatim>\<open>mi_heap_contains_block\<close>\<close>

definition mi_heap_of_block :: "env \<Rightarrow> state \<Rightarrow> addr \<Rightarrow> addr" where
  "mi_heap_of_block X s p =
     (if p = 0 then 0
      else
        let segment = mi_ptr_segment X p;
            valid = (mi_ptr_cookie X segment = mi_segment_cookie X s segment)
        in if \<not> valid then 0
           else page_heap (page_tab s (mi_segment_page_of X s segment p)))"

definition mi_heap_contains_block :: "env \<Rightarrow> state \<Rightarrow> addr \<Rightarrow> addr \<Rightarrow> bool" where
  "mi_heap_contains_block X s heap p =
     (if \<not> mi_heap_is_initialized s heap then False
      else heap = mi_heap_of_block X s p)"

section \<open>Visiting heap areas and blocks\<close>

text \<open>
  \<^verbatim>\<open>mi_heap_area_t\<close>, and \<^verbatim>\<open>mi_block_visit_fun\<close>: the client's visitor gets the heap, the area,
  the block (\<^verbatim>\<open>NULL\<close> when it is called for the area itself) and the block size; what it
  reaches through \<^verbatim>\<open>arg\<close> is the value of type \<open>'u\<close> it takes and returns.
\<close>

record mi_heap_area =
  area_blocks :: addr
  area_reserved :: "64 word"
  area_committed :: "64 word"
  area_used :: "64 word"
  area_block_size :: "64 word"

type_synonym 'u mi_block_visit_fun =
  "addr \<Rightarrow> mi_heap_area \<Rightarrow> addr \<Rightarrow> 64 word \<Rightarrow> 'u \<Rightarrow> bool \<times> 'u"

text \<open>
  The first loop of \<^verbatim>\<open>mi_heap_area_visit_blocks\<close> marks one free block in the bitmap
  \<^verbatim>\<open>free_map\<close> (an array of words, here indexed by any number); \<^verbatim>\<open>sizeof(uintptr_t)\<close> is 8.
  The block size of a page is never 0 in the allocator; here a division by 0 yields 0.
\<close>

definition mark_free :: "addr \<Rightarrow> 64 word \<Rightarrow> addr \<Rightarrow> (nat \<Rightarrow> 64 word) \<Rightarrow> (nat \<Rightarrow> 64 word)" where
  "mark_free pstart bsize block free_map =
     (let offset = block - pstart;
          blockidx = offset div bsize;
          bitidx = blockidx div 8;
          bit = blockidx - bitidx * 8
      in free_map(unat bitidx := free_map (unat bitidx) OR push_bit (unat bit) 1))"

text \<open>
  The second loop walks the block indices \<open>i < capacity\<close>, skipping the free ones.
\<close>

function visit_used ::
  "'u mi_block_visit_fun \<Rightarrow> addr \<Rightarrow> mi_heap_area \<Rightarrow> addr \<Rightarrow> 64 word \<Rightarrow> (nat \<Rightarrow> 64 word) \<Rightarrow>
     nat \<Rightarrow> nat \<Rightarrow> 'u \<Rightarrow> bool \<times> 'u"
where
  "visit_used visitor heap area pstart bsize free_map cap i arg =
     (if i < cap then
        (let bitidx = i div 8;
             bit = i - bitidx * 8;
             m = free_map bitidx
         in if bit = 0 \<and> m = - 1 then
              visit_used visitor heap area pstart bsize free_map cap (i + 7 + 1) arg
            else if m AND push_bit bit 1 = 0 then
              (case visitor heap area (pstart + of_nat i * bsize) bsize arg of
                 (ok, arg') \<Rightarrow>
                   if \<not> ok then (False, arg')
                   else visit_used visitor heap area pstart bsize free_map cap (i + 1) arg')
            else visit_used visitor heap area pstart bsize free_map cap (i + 1) arg)
      else (True, arg))"
  by pat_completeness auto
termination
  by (relation "measure (\<lambda>(visitor, heap, area, pstart, bsize, free_map, cap, i, arg). cap - i)") auto

text \<open>
  \<^verbatim>\<open>mi_heap_area_visit_blocks\<close>; its argument \<^verbatim>\<open>xarea\<close> is the pair of \<open>page\<close> and \<open>area\<close>, and
  is never \<^verbatim>\<open>NULL\<close>.
\<close>

definition mi_heap_area_visit_blocks ::
  "env \<Rightarrow> addr \<Rightarrow> mi_heap_area \<Rightarrow> 'u mi_block_visit_fun \<Rightarrow> 'u \<Rightarrow> state \<Rightarrow> bool \<times> 'u \<times> state"
where
  "mi_heap_area_visit_blocks X page area visitor arg s =
     (if page = 0 then (True, arg, s)
      else
        let s1 = mi_page_free_collect X page True s;
            pg = page_tab s1 page
        in if used pg = 0 then (True, arg, s1)
           else
             let bsize = block_size pg;
                 pstart = page_start pg
             in if capacity pg = 1
                then (case visitor (page_heap pg) area pstart bsize arg of
                        (ok, arg') \<Rightarrow> (ok, arg', s1))
                else
                  let free_map = fold (mark_free pstart bsize) (free pg) (\<lambda>_. 0)
                  in (case visit_used visitor (page_heap pg) area pstart bsize free_map
                             (unat (capacity pg)) 0 arg of
                        (ok, arg') \<Rightarrow> (ok, arg', s1)))"

text \<open>
  \<^verbatim>\<open>mi_heap_area_visit_fun\<close> gets the heap, the extended area (page and area) and \<^verbatim>\<open>arg\<close>.
\<close>

type_synonym 'u mi_heap_area_visit_fun =
  "addr \<Rightarrow> addr \<Rightarrow> mi_heap_area \<Rightarrow> 'u \<Rightarrow> state \<Rightarrow> bool \<times> 'u \<times> state"

definition mi_heap_visit_areas_page ::
  "env \<Rightarrow> 'u mi_heap_area_visit_fun \<Rightarrow> 'u heap_page_visitor_fun"
where
  "mi_heap_visit_areas_page X vfun heap pq page arg s =
     (let s1 = mi_page_free_collect X page False s;
          pg = page_tab s1 page;
          bsize = block_size pg;
          area = \<lparr> area_blocks = page_start pg,
                   area_reserved = ucast (reserved pg) * bsize,
                   area_committed = ucast (capacity pg) * bsize,
                   area_used = ucast (used pg),
                   area_block_size = bsize \<rparr>
      in vfun heap page area arg s1)"

text \<open>
  \<^verbatim>\<open>mi_heap_visit_areas\<close>: its test \<^verbatim>\<open>visitor == NULL\<close> never holds, the only caller passes
  the address of \<^verbatim>\<open>mi_heap_area_visitor\<close>.
\<close>

definition mi_heap_visit_areas ::
  "env \<Rightarrow> addr \<Rightarrow> 'u mi_heap_area_visit_fun \<Rightarrow> 'u \<Rightarrow> state \<Rightarrow> bool \<times> 'u \<times> state"
where
  "mi_heap_visit_areas X heap visitor arg s =
     mi_heap_visit_pages X (mi_heap_visit_areas_page X visitor) heap arg s"

definition mi_heap_area_visitor ::
  "env \<Rightarrow> bool \<Rightarrow> 'u mi_block_visit_fun \<Rightarrow> 'u mi_heap_area_visit_fun"
where
  "mi_heap_area_visitor X visit_blocks visitor heap page area arg s =
     (case visitor heap area 0 (area_block_size area) arg of
        (ok, arg') \<Rightarrow>
          if \<not> ok then (False, arg', s)
          else if visit_blocks then mi_heap_area_visit_blocks X page area visitor arg' s
          else (True, arg', s))"

definition mi_heap_visit_blocks ::
  "env \<Rightarrow> addr \<Rightarrow> bool \<Rightarrow> 'u mi_block_visit_fun \<Rightarrow> 'u \<Rightarrow> state \<Rightarrow> bool \<times> 'u \<times> state"
where
  "mi_heap_visit_blocks X heap visit_blocks visitor arg s =
     mi_heap_visit_areas X heap (mi_heap_area_visitor X visit_blocks visitor) arg s"

section \<open>Predicates used to state the properties\<close>

text \<open>
  The committed block area of a page, \<^verbatim>\<open>[start, end)\<close> in \<^verbatim>\<open>mi_heap_page_check_owned\<close>.
\<close>

definition in_page_area :: "mi_page \<Rightarrow> addr \<Rightarrow> bool" where
  "in_page_area pg p = (page_start pg \<le> p \<and> p < page_area_end pg)"

text \<open>The pages linked in the given bins of a heap, and invariant 2 of the data model:
  \<^verbatim>\<open>page_count\<close> is the number of pages linked from \<^verbatim>\<open>pages[]\<close>.\<close>

definition queue_pages :: "mi_heap \<Rightarrow> nat list \<Rightarrow> addr list" where
  "queue_pages h bins = concat (map (pages h) bins)"

definition heap_pages_counted :: "env \<Rightarrow> state \<Rightarrow> addr \<Rightarrow> bool" where
  "heap_pages_counted X s heap =
     (unat (page_count (heaps s heap)) = length (queue_pages (heaps s heap) (all_bins X)))"

text \<open>
  \<open>dlist m k0 k1 p bs\<close>: in block memory \<open>m\<close>, walking from \<open>p\<close> through the links decoded
  under the keys \<open>k0\<close>, \<open>k1\<close> visits exactly the blocks \<open>bs\<close> and then reaches \<^verbatim>\<open>NULL\<close>.
  \<open>delayed_list s heap bs\<close>: the delayed-free list of \<open>heap\<close> is walkable under the heap's
  own keys and holds the blocks \<open>bs\<close>.
\<close>

fun dlist :: "(addr \<Rightarrow> 64 word) \<Rightarrow> 64 word \<Rightarrow> 64 word \<Rightarrow> addr \<Rightarrow> addr list \<Rightarrow> bool" where
  "dlist m k0 k1 p [] = (p = 0)"
| "dlist m k0 k1 p (b # bs) =
     (p = b \<and> b \<noteq> 0 \<and> dlist m k0 k1 (mi_ptr_decode k0 k1 (m b)) bs)"

definition delayed_list :: "state \<Rightarrow> addr \<Rightarrow> addr list \<Rightarrow> bool" where
  "delayed_list s heap bs =
     dlist (mem s) (key0 (heaps s heap)) (key1 (heaps s heap))
       (thread_delayed_free (heaps s heap)) bs"

text \<open>
  The block memory after the links between consecutive blocks of a list were rewritten
  under the keys \<open>k0\<close>, \<open>k1\<close>; the link of the last block is left as it was.
\<close>

fun relink :: "64 word \<Rightarrow> 64 word \<Rightarrow> addr list \<Rightarrow> (addr \<Rightarrow> 64 word) \<Rightarrow> (addr \<Rightarrow> 64 word)" where
  "relink k0 k1 (b # c # r) m = relink k0 k1 (c # r) (m(b := mi_ptr_encode k0 k1 c))"
| "relink k0 k1 bs m = m"

text \<open>
  The state that \<^verbatim>\<open>mi_heap_absorb(heap, from)\<close> leaves when \<open>from\<close> holds pages and its
  delayed-free list holds the blocks \<open>bs\<close>.
\<close>

definition absorb_post :: "env \<Rightarrow> addr \<Rightarrow> addr \<Rightarrow> addr list \<Rightarrow> state \<Rightarrow> state" where
  "absorb_post X heap from bs s =
     (let A = heaps s heap; B = heaps s from in
      s\<lparr>heaps := (heaps s)
          (heap := A\<lparr>pages := (\<lambda>i. if i \<le> MI_BIN_FULL X then pages A i @ pages B i else pages A i),
                     page_count := page_count A + of_nat (length (queue_pages B (all_bins X))),
                     thread_delayed_free := (if bs = [] then thread_delayed_free A else hd bs)\<rparr>,
           from := B\<lparr>pages := (\<lambda>_. []), thread_delayed_free := 0, page_count := 0\<rparr>),
        page_tab := fold (set_page_heap heap) (queue_pages B (all_bins X)) (page_tab s),
        mem := (if bs = [] then mem s
                else (relink (key0 A) (key1 A) bs (mem s))
                       (last bs := mi_ptr_encode (key0 A) (key1 A) (thread_delayed_free A)))\<rparr>)"

text \<open>
  \<open>astack hs p rs\<close>: walking from \<open>p\<close> through \<^verbatim>\<open>abandoned_next\<close> visits exactly the heaps
  \<open>rs\<close> and then reaches \<^verbatim>\<open>NULL\<close>. \<open>abandoned_stack s rs\<close>: the process-wide abandoned stack
  holds the heaps \<open>rs\<close>, top first.
\<close>

fun astack :: "(addr \<Rightarrow> mi_heap) \<Rightarrow> addr \<Rightarrow> addr list \<Rightarrow> bool" where
  "astack hs p [] = (p = 0)"
| "astack hs p (h # rs) = (p = h \<and> h \<noteq> 0 \<and> astack hs (abandoned_next (hs h)) rs)"

definition abandoned_stack :: "state \<Rightarrow> addr list \<Rightarrow> bool" where
  "abandoned_stack s rs = astack (heaps s) (abandoned s) rs"

text \<open>The backing heap of the thread that owns \<open>heap\<close>: \<^verbatim>\<open>heap->tld->heap_backing\<close>.\<close>

definition backing_of :: "state \<Rightarrow> addr \<Rightarrow> addr" where
  "backing_of s heap = heap_backing (tlds s (tld (heaps s heap)))"

text \<open>
  \<open>same_identity s s'\<close>: from \<open>s\<close> to \<open>s'\<close> no heap storage was released, the default-heap
  slot, the thread-local descriptors and the \<^verbatim>\<open>tld\<close> pointer of every heap are as they were.
  \<open>page_destroy_frame X\<close>: the two collaborators that \<^verbatim>\<open>_mi_heap_page_destroy\<close> calls, which
  work on segments and statistics, leave all of that alone.
\<close>

definition same_identity :: "state \<Rightarrow> state \<Rightarrow> bool" where
  "same_identity s s' =
     (freed s' = freed s \<and> default_heap s' = default_heap s \<and> tlds s' = tlds s \<and>
      (\<forall>h. tld (heaps s' h) = tld (heaps s h)))"

definition page_destroy_frame :: "env \<Rightarrow> bool" where
  "page_destroy_frame X =
     ((\<forall>page force t s. same_identity s (mi_segment_page_free X page force t s)) \<and>
      (\<forall>k t n s. same_identity s (mi_stat_decrease X k t n s)))"

text \<open>
  The state after \<^verbatim>\<open>_mi_heap_try_reclaim_abandoned(heap, false)\<close> has claimed the stack, cut
  off its top \<open>r\<close> and put the rest back.
\<close>

definition reclaim_popped :: "addr \<Rightarrow> state \<Rightarrow> state" where
  "reclaim_popped r s =
     (upd_heap r (\<lambda>h. h\<lparr>abandoned_next := 0\<rparr>) s)\<lparr>abandoned := abandoned_next (heaps s r)\<rparr>"

text \<open>
  \<open>keeps_others heap f\<close>: the step \<open>f\<close>, which works for \<open>heap\<close>, leaves the abandoned stack
  pointer and every other heap object alone. \<open>collect_frame X heap\<close>: the collaborators that
  \<^verbatim>\<open>_mi_heap_collect_abandon(heap)\<close> reaches (the deferred-free hook, the drain of the
  delayed-free list, the release of retired pages, the segment and region caches, the
  statistics, and the segment transfer of a reclaim) keep to \<open>heap\<close> in that sense, and the
  deferred-free hook leaves the delayed-free list of every other heap walkable.
  \<open>stack_nonempty s rs\<close>: the abandoned stack holds the heaps \<open>rs\<close> and each of them counts at
  least one page. \<open>no_page_gained heap s s'\<close>: from \<open>s\<close> to \<open>s'\<close> no heap other than \<open>heap\<close> has
  a page linked in one of its queues that it did not hold there before.
\<close>

definition keeps_others :: "addr \<Rightarrow> (state \<Rightarrow> state) \<Rightarrow> bool" where
  "keeps_others heap f =
     (\<forall>s. abandoned (f s) = abandoned s \<and> (\<forall>h. h \<noteq> heap \<longrightarrow> heaps (f s) h = heaps s h))"

definition collect_frame :: "env \<Rightarrow> addr \<Rightarrow> bool" where
  "collect_frame X heap =
     ((\<forall>force. keeps_others heap (mi_deferred_free X heap force)) \<and>
      (\<forall>force s h bs. h \<noteq> heap \<longrightarrow> delayed_list s h bs \<longrightarrow>
          delayed_list (mi_deferred_free X heap force s) h bs) \<and>
      keeps_others heap (mi_heap_delayed_free X heap) \<and>
      (\<forall>force. keeps_others heap (mi_heap_collect_retired X heap force)) \<and>
      (\<forall>t. keeps_others heap (mi_segment_thread_collect X t)) \<and>
      (\<forall>t. keeps_others heap (mi_mem_collect X t)) \<and>
      (\<forall>t. keeps_others heap (mi_stats_done X t)) \<and>
      (\<forall>tid t t'. keeps_others heap (mi_segments_absorb X tid t t')))"

definition stack_nonempty :: "state \<Rightarrow> addr list \<Rightarrow> bool" where
  "stack_nonempty s rs = (abandoned_stack s rs \<and> (\<forall>r \<in> set rs. page_count (heaps s r) \<noteq> 0))"

definition no_page_gained :: "addr \<Rightarrow> state \<Rightarrow> state \<Rightarrow> bool" where
  "no_page_gained heap s s' =
     (\<forall>h i. h \<noteq> heap \<longrightarrow> set (pages (heaps s' h) i) \<subseteq> set (pages (heaps s h) i))"

section \<open>Concrete states\<close>

text \<open>
  An environment with two ordinary bins and the full bin, in which the collaborators have
  nothing to do: no deferred-free callback is registered, no block waits to be drained, no
  page is retired, the caches are empty, and the calling thread is not the main thread.
  Segments are 4 MiB aligned and carry their own address as cookie.
\<close>

definition env0 :: env where
  "env0 = \<lparr> MI_BIN_FULL = 2, MI_LARGE_OBJ_SIZE_MAX = 0x200000, MI_HUGE_OBJ_SIZE_MAX = 0x40000000,
     mi_deferred_free = (\<lambda>heap force s. s),
     mi_heap_delayed_free = (\<lambda>heap s. s),
     mi_heap_collect_retired = (\<lambda>heap force s. s),
     mi_segment_thread_collect = (\<lambda>t s. s),
     mi_mem_collect = (\<lambda>t s. s),
     mi_is_main_thread = (\<lambda>s. False),
     mi_stats_done = (\<lambda>t s. s),
     mi_segments_absorb = (\<lambda>tid to from s. s),
     mi_page_free_collect = (\<lambda>page force s. s),
     mi_segment_page_free = (\<lambda>page force t s. s),
     mi_stat_decrease = (\<lambda>k t n s. s),
     mi_ptr_segment = (\<lambda>p. p AND NOT 0x3FFFFF),
     mi_ptr_cookie = (\<lambda>seg. seg),
     mi_segment_cookie = (\<lambda>s seg. seg),
     mi_segment_page_of = (\<lambda>s seg p. seg) \<rparr>"

text \<open>The canonical empty heap \<^verbatim>\<open>_mi_heap_empty\<close>, an all-zero page, and an all-zero state.\<close>

definition heap0 :: mi_heap where
  "heap0 = \<lparr> tld = 0, pages = (\<lambda>_. []), thread_delayed_free = 0, thread_id = 0, cookie = 0,
     key0 = 0, key1 = 0, page_count = 0, no_reclaim = False, abandoned_next = 0 \<rparr>"

definition page0 :: mi_page where
  "page0 = \<lparr> page_heap = 0, capacity = 0, reserved = 0, used = 0, block_size = 0,
     page_start = 0, free = [] \<rparr>"

definition state0 :: state where
  "state0 = \<lparr> heaps = (\<lambda>_. heap0), tlds = (\<lambda>_. \<lparr> heap_backing = 0 \<rparr>),
     page_tab = (\<lambda>_. page0), mem = (\<lambda>_. 0), abandoned = 0, default_heap = 0, freed = {} \<rparr>"

text \<open>
  One thread (descriptor at 0x80) with its backing heap at 0x100 and a child heap at 0x200,
  which is the thread's default heap. The backing heap holds the page 0x400000 in bin 0: four
  blocks of 32 bytes from 0x401000, those at 0x401020 and 0x401060 on its free list. The child
  heap holds the page 0x500000 in bin 1, and two of its blocks, 0x501000 and 0x501020, wait
  on the child's delayed-free list.
\<close>

definition backing_heap :: mi_heap where
  "backing_heap = \<lparr> tld = 0x80, pages = (\<lambda>_. [])(0 := [0x400000]), thread_delayed_free = 0,
     thread_id = 1, cookie = 0x1235, key0 = 0x1111, key1 = 0x2222, page_count = 1,
     no_reclaim = False, abandoned_next = 0 \<rparr>"

definition child_heap :: mi_heap where
  "child_heap = \<lparr> tld = 0x80, pages = (\<lambda>_. [])(Suc 0 := [0x500000]), thread_delayed_free = 0x501000,
     thread_id = 1, cookie = 0x4321, key0 = 0x3333, key1 = 0x4444, page_count = 1,
     no_reclaim = True, abandoned_next = 0 \<rparr>"

definition st_family :: state where
  "st_family = \<lparr>
     heaps = (\<lambda>_. heap0)(0x100 := backing_heap, 0x200 := child_heap),
     tlds = (\<lambda>_. \<lparr> heap_backing = 0 \<rparr>)(0x80 := \<lparr> heap_backing = 0x100 \<rparr>),
     page_tab = (\<lambda>_. page0)
       (0x400000 := \<lparr> page_heap = 0x100, capacity = 4, reserved = 4, used = 2, block_size = 32,
                       page_start = 0x401000, free = [0x401020, 0x401060] \<rparr>,
        0x500000 := \<lparr> page_heap = 0x200, capacity = 4, reserved = 4, used = 4, block_size = 32,
                       page_start = 0x501000, free = [] \<rparr>),
     mem = (\<lambda>_. 0)(0x501000 := mi_ptr_encode 0x3333 0x4444 0x501020,
                    0x501020 := mi_ptr_encode 0x3333 0x4444 0),
     abandoned = 0, default_heap = 0x200, freed = {} \<rparr>"


text \<open>
  The same thread, and the backing heap 0x300 of a thread that has exited (descriptor at
  0x90): it holds the page 0x600000 in bin 0 and is the only heap on the abandoned stack.
\<close>

definition st_abandoned :: state where
  "st_abandoned = st_family \<lparr>
     heaps := (heaps st_family)(0x300 := \<lparr> tld = 0x90, pages = (\<lambda>_. [])(0 := [0x600000]),
        thread_delayed_free = 0, thread_id = 2, cookie = 0x77, key0 = 0x5555, key1 = 0x6666,
        page_count = 1, no_reclaim = False, abandoned_next = 0 \<rparr>),
     tlds := (tlds st_family)(0x90 := \<lparr> heap_backing = 0x300 \<rparr>),
     page_tab := (page_tab st_family)(0x600000 := \<lparr> page_heap = 0x300, capacity = 2, reserved = 2,
        used = 2, block_size = 128, page_start = 0x601000, free = [] \<rparr>),
     abandoned := 0x300 \<rparr>"

text \<open>A thread whose backing heap 0x100 holds no page and is the thread's default heap.\<close>

definition st_lone :: state where
  "st_lone = state0 \<lparr>
     heaps := (\<lambda>_. heap0)(0x100 := heap0 \<lparr> tld := 0x80, thread_id := 1 \<rparr>),
     tlds := (\<lambda>_. \<lparr> heap_backing = 0 \<rparr>)(0x80 := \<lparr> heap_backing = 0x100 \<rparr>),
     default_heap := 0x100 \<rparr>"


text \<open>
  As \<open>st_abandoned\<close>, with a second abandoned heap below 0x300 on the stack: the backing heap
  0x380 of another exited thread (descriptor at 0xA0), which holds the page 0x700000 in bin 1.
\<close>

definition st_two_abandoned :: state where
  "st_two_abandoned = st_abandoned \<lparr>
     heaps := (heaps st_abandoned)
       (0x300 := (heaps st_abandoned 0x300)\<lparr>abandoned_next := 0x380\<rparr>,
        0x380 := \<lparr> tld = 0xA0, pages = (\<lambda>_. [])(Suc 0 := [0x700000]),
          thread_delayed_free = 0, thread_id = 3, cookie = 0x99, key0 = 0x7777, key1 = 0x8888,
          page_count = 1, no_reclaim = False, abandoned_next = 0 \<rparr>),
     tlds := (tlds st_abandoned)(0xA0 := \<lparr> heap_backing = 0x380 \<rparr>),
     page_tab := (page_tab st_abandoned)(0x700000 := \<lparr> page_heap = 0x380, capacity = 2,
        reserved = 2, used = 1, block_size = 64, page_start = 0x701000, free = [0x701040] \<rparr>) \<rparr>"

section \<open>Basic facts\<close>

lemmas example_defs = env0_def heap0_def page0_def state0_def backing_heap_def child_heap_def
  st_family_def all_bins_def upd_heap_def

lemma upd_heap_simps [simp]:
  "heaps (upd_heap h f s) = (heaps s)(h := f (heaps s h))"
  "tlds (upd_heap h f s) = tlds s"
  "page_tab (upd_heap h f s) = page_tab s"
  "mem (upd_heap h f s) = mem s"
  "abandoned (upd_heap h f s) = abandoned s"
  "default_heap (upd_heap h f s) = default_heap s"
  "freed (upd_heap h f s) = freed s"
  by (simp_all add: upd_heap_def)

lemma set_all_bins [simp]: "i \<in> set (all_bins X) \<longleftrightarrow> i \<le> MI_BIN_FULL X"
  by (auto simp: all_bins_def)

lemma distinct_all_bins [simp]: "distinct (all_bins X)"
  by (simp add: all_bins_def)

section \<open>C1: what \<^verbatim>\<open>mi_heap_check_owned\<close> decides\<close>

lemma visit_queue_check_owned:
  "visit_queue (mi_heap_page_check_owned p heap i) ps a s =
     (if \<exists>page \<in> set ps. in_page_area (page_tab s page) p then (False, True, s)
      else (True, (if ps = [] then a else False), s))"
  by (induction ps arbitrary: a)
     (auto simp: mi_heap_page_check_owned_def in_page_area_def Let_def)

lemma visit_bins_check_owned:
  "visit_bins (mi_heap_page_check_owned p) heap bins False s =
     (if \<exists>i \<in> set bins. \<exists>page \<in> set (pages (heaps s heap) i). in_page_area (page_tab s page) p
      then (False, True, s) else (True, False, s))"
  by (induction bins) (auto simp: visit_queue_check_owned)

text \<open>
  C1, as the code has it. \<^verbatim>\<open>mi_heap_check_owned(heap, p)\<close> returns true if and only if the
  heap is initialized, \<open>p\<close> is aligned to the machine word, the heap is not \<^verbatim>\<open>NULL\<close> and
  counts at least one page, and \<open>p\<close> lies in the block area
  \<^verbatim>\<open>[start, start + capacity * block_size)\<close> of a page linked in one of the heap's queues.
  Block boundaries and free lists are not looked at.
\<close>

theorem C1_check_owned_is_area_test:
  "mi_heap_check_owned X s heap p \<longleftrightarrow>
     mi_heap_is_initialized s heap \<and> p AND (MI_INTPTR_SIZE - 1) = 0 \<and>
     heap \<noteq> 0 \<and> page_count (heaps s heap) \<noteq> 0 \<and>
     (\<exists>i \<in> set (all_bins X). \<exists>page \<in> set (pages (heaps s heap) i).
         in_page_area (page_tab s page) p)"
  by (simp add: mi_heap_check_owned_def mi_heap_visit_pages_def visit_bins_check_owned)

text \<open>
  C1 as the specification states it fails: in \<open>st_family\<close> the backing heap is reported to
  own 0x401008, which points into the middle of its first block, and 0x401020, the base of a
  block that is on the page's free list; 0x401040, the base of an allocated block, is owned
  under both readings.
\<close>

theorem C1_check_owned_counterexample:
  "mi_heap_check_owned env0 st_family 0x100 0x401008 \<and>
   \<not> spec_check_owned env0 st_family 0x100 0x401008 \<and>
   mi_heap_check_owned env0 st_family 0x100 0x401020 \<and>
   \<not> spec_check_owned env0 st_family 0x100 0x401020 \<and>
   mi_heap_check_owned env0 st_family 0x100 0x401040 \<and>
   spec_check_owned env0 st_family 0x100 0x401040"
  by (simp add: mi_heap_check_owned_def mi_heap_visit_pages_def mi_heap_is_initialized_def
      MI_INTPTR_SIZE_def example_defs spec_check_owned_def spec_block_base_def upt_rec
      mi_heap_page_check_owned_def page_area_end_def)

theorem C1_check_owned_witness:
  "mi_heap_check_owned env0 st_family 0x100 0x401008 \<and>
   \<not> mi_heap_check_owned env0 st_family 0x100 0x401004 \<and>
   \<not> mi_heap_check_owned env0 st_family 0x100 0x401080 \<and>
   \<not> mi_heap_check_owned env0 st_family 0x200 0x401008"
  using C1_check_owned_is_area_test [of env0 st_family "0x100" "0x401008"]
    C1_check_owned_is_area_test [of env0 st_family "0x100" "0x401004"]
    C1_check_owned_is_area_test [of env0 st_family "0x100" "0x401080"]
    C1_check_owned_is_area_test [of env0 st_family "0x200" "0x401008"]
  by (simp add: mi_heap_is_initialized_def MI_INTPTR_SIZE_def example_defs in_page_area_def
      page_area_end_def upt_rec)

section \<open>C7: operations on an uninitialized heap\<close>

text \<open>
  C7. On a heap whose \<^verbatim>\<open>tld\<close> pointer is null, collect (in every mode, and through the
  public \<^verbatim>\<open>mi_heap_collect\<close>), delete and destroy return and leave the state as it is,
  \<^verbatim>\<open>mi_heap_set_default\<close> returns \<^verbatim>\<open>NULL\<close> and leaves the default heap as it is, and
  \<^verbatim>\<open>mi_heap_contains_block\<close> and \<^verbatim>\<open>mi_heap_check_owned\<close> return false for every pointer.
\<close>

theorem C7_uninitialized_heap_is_inert:
  assumes "\<not> mi_heap_is_initialized s heap"
  shows "mi_heap_collect_ex X heap mode s = Some s \<and>
         mi_heap_collect X heap force s = Some s \<and>
         mi_heap_delete X heap s = Some s \<and>
         mi_heap_destroy X heap s = Some s \<and>
         mi_heap_set_default heap s = (0, s) \<and>
         \<not> mi_heap_contains_block X s heap p \<and>
         \<not> mi_heap_check_owned X s heap p"
  using assms
  by (simp add: mi_heap_collect_ex_def mi_heap_collect_def mi_heap_delete_def
      mi_heap_destroy_def mi_heap_set_default_def mi_heap_contains_block_def
      mi_heap_check_owned_def)

text \<open>
  In \<open>st_family\<close> no heap object lies at 0x700: the store holds the image of the empty heap
  there, and the child heap 0x200 stays the default heap.
\<close>

theorem C7_uninitialized_heap_witness:
  "\<not> mi_heap_is_initialized st_family 0x700 \<and>
   mi_heap_collect_ex env0 0x700 FORCE st_family = Some st_family \<and>
   mi_heap_delete env0 0x700 st_family = Some st_family \<and>
   mi_heap_destroy env0 0x700 st_family = Some st_family \<and>
   mi_heap_set_default 0x700 st_family = (0, st_family) \<and>
   \<not> mi_heap_contains_block env0 st_family 0x700 0x401000 \<and>
   \<not> mi_heap_check_owned env0 st_family 0x700 0x401000"
proof -
  have uninit: "\<not> mi_heap_is_initialized st_family 0x700"
    by (simp add: mi_heap_is_initialized_def example_defs)
  show ?thesis
    using uninit C7_uninitialized_heap_is_inert [OF uninit, of env0 FORCE True "0x401000"]
    by simp
qed

section \<open>C9: visiting an empty heap\<close>

text \<open>
  C9. For a heap that is \<^verbatim>\<open>NULL\<close> or counts no page, \<^verbatim>\<open>mi_heap_visit_pages\<close> returns false
  whatever the page visitor is, with the visitor's data and the state untouched, and so
  \<^verbatim>\<open>mi_heap_visit_blocks\<close> returns false whatever the block visitor is, with its argument
  and the state untouched.
\<close>

theorem C9_visit_empty_heap_returns_false:
  assumes "heap = 0 \<or> page_count (heaps s heap) = 0"
  shows "mi_heap_visit_pages X fn heap a s = (False, a, s) \<and>
         mi_heap_visit_blocks X heap visit_blocks visitor arg s = (False, arg, s)"
  using assms
  by (auto simp: mi_heap_visit_pages_def mi_heap_visit_blocks_def mi_heap_visit_areas_def)

text \<open>
  The backing heap of \<open>st_lone\<close> counts no page: a visitor that would count its calls and
  never asks to stop is not called, and the walk still reports false.
\<close>

theorem C9_visit_empty_heap_witness:
  "page_count (heaps st_lone 0x100) = 0 \<and>
   mi_heap_visit_blocks env0 0x100 True (\<lambda>heap area block bsize n. (True, Suc n)) (0::nat) st_lone
     = (False, 0, st_lone)"
proof -
  have empty: "(0x100::addr) = 0 \<or> page_count (heaps st_lone 0x100) = 0"
    by (simp add: st_lone_def example_defs)
  have "page_count (heaps st_lone 0x100) = 0"
    by (simp add: st_lone_def example_defs)
  then show ?thesis
    using C9_visit_empty_heap_returns_false [OF empty, of env0 "mi_heap_page_check_owned 0" False True
        "\<lambda>heap area block bsize n. (True, Suc n)" "0::nat"]
    by simp
qed

section \<open>The effect of \<^verbatim>\<open>mi_heap_absorb\<close>\<close>

subsection \<open>Splicing the queues\<close>

lemma absorb_bin_frame [simp]:
  "tlds (absorb_bin heap from i s) = tlds s"
  "mem (absorb_bin heap from i s) = mem s"
  "abandoned (absorb_bin heap from i s) = abandoned s"
  "default_heap (absorb_bin heap from i s) = default_heap s"
  "freed (absorb_bin heap from i s) = freed s"
  by (simp_all add: absorb_bin_def mi_page_queue_append_def Let_def)

lemma absorb_bin_page_tab:
  "page_tab (absorb_bin heap from i s) =
     fold (set_page_heap heap) (pages (heaps s from) i) (page_tab s)"
  by (simp add: absorb_bin_def mi_page_queue_append_def Let_def)

lemma absorb_bin_heaps:
  "heap \<noteq> from \<Longrightarrow>
   heaps (absorb_bin heap from i s) =
     (heaps s)
       (heap := (heaps s heap)
          \<lparr>pages := (pages (heaps s heap))(i := pages (heaps s heap) i @ pages (heaps s from) i),
           page_count := page_count (heaps s heap) + of_nat (length (pages (heaps s from) i))\<rparr>,
        from := (heaps s from)
          \<lparr>page_count := page_count (heaps s from) - of_nat (length (pages (heaps s from) i))\<rparr>)"
  by (auto simp add: absorb_bin_def mi_page_queue_append_def Let_def fun_eq_iff)

lemma fold_absorb_frame [simp]:
  "tlds (fold (absorb_bin heap from) bins s) = tlds s"
  "mem (fold (absorb_bin heap from) bins s) = mem s"
  "abandoned (fold (absorb_bin heap from) bins s) = abandoned s"
  "default_heap (fold (absorb_bin heap from) bins s) = default_heap s"
  "freed (fold (absorb_bin heap from) bins s) = freed s"
  by (induction bins arbitrary: s; simp)+

lemma fold_absorb_other:
  "h \<noteq> heap \<Longrightarrow> h \<noteq> from \<Longrightarrow> heap \<noteq> from \<Longrightarrow>
   heaps (fold (absorb_bin heap from) bins s) h = heaps s h"
  by (induction bins arbitrary: s) (simp_all add: absorb_bin_heaps)

lemma fold_absorb_from:
  "heap \<noteq> from \<Longrightarrow>
   heaps (fold (absorb_bin heap from) bins s) from =
     (heaps s from)
       \<lparr>page_count := page_count (heaps s from) - of_nat (length (queue_pages (heaps s from) bins))\<rparr>"
  by (induction bins arbitrary: s) (simp_all add: absorb_bin_heaps queue_pages_def)

lemma fold_absorb_heap:
  "heap \<noteq> from \<Longrightarrow> distinct bins \<Longrightarrow>
   heaps (fold (absorb_bin heap from) bins s) heap =
     (heaps s heap)
       \<lparr>pages := (\<lambda>i. if i \<in> set bins then pages (heaps s heap) i @ pages (heaps s from) i
                        else pages (heaps s heap) i),
        page_count := page_count (heaps s heap) + of_nat (length (queue_pages (heaps s from) bins))\<rparr>"
proof (induction bins arbitrary: s)
  case Nil
  then show ?case by (simp add: queue_pages_def)
next
  case (Cons i bins)
  let ?s1 = "absorb_bin heap from i s"
  have from1: "pages (heaps ?s1 from) = pages (heaps s from)"
    using Cons.prems by (simp add: absorb_bin_heaps)
  have "heaps (fold (absorb_bin heap from) (i # bins) s) heap =
        heaps (fold (absorb_bin heap from) bins ?s1) heap" by simp
  also have "\<dots> = (heaps ?s1 heap)
       \<lparr>pages := (\<lambda>j. if j \<in> set bins then pages (heaps ?s1 heap) j @ pages (heaps ?s1 from) j
                        else pages (heaps ?s1 heap) j),
        page_count := page_count (heaps ?s1 heap) + of_nat (length (queue_pages (heaps ?s1 from) bins))\<rparr>"
    using Cons.prems by (intro Cons.IH) auto
  finally show ?case
    using Cons.prems from1
    by (auto simp add: absorb_bin_heaps queue_pages_def fun_eq_iff)
qed

lemma fold_set_page_heap:
  "fold (set_page_heap heap) ps t page =
     (if page \<in> set ps then (t page)\<lparr>page_heap := heap\<rparr> else t page)"
  by (induction ps arbitrary: t) (auto simp: set_page_heap_def)

lemma fold_absorb_page_tab:
  "heap \<noteq> from \<Longrightarrow>
   page_tab (fold (absorb_bin heap from) bins s) =
     fold (set_page_heap heap) (queue_pages (heaps s from) bins) (page_tab s)"
  by (induction bins arbitrary: s)
     (simp_all add: absorb_bin_page_tab absorb_bin_heaps queue_pages_def)

lemma in_queue_pages:
  "page \<in> set (queue_pages h bins) \<longleftrightarrow> (\<exists>i \<in> set bins. page \<in> set (pages h i))"
  by (auto simp: queue_pages_def)

subsection \<open>Walking and re-encoding a delayed-free list\<close>

lemma decode_encode [simp]: "mi_ptr_decode k0 k1 (mi_ptr_encode k0 k1 p) = p"
  by (simp add: mi_ptr_decode_def mi_ptr_encode_def xor.assoc)

lemma dlist_unique: "dlist m k0 k1 p as \<Longrightarrow> dlist m k0 k1 p bs \<Longrightarrow> as = bs"
proof (induction as arbitrary: p bs)
  case Nil
  then show ?case by (cases bs) auto
next
  case (Cons a as)
  then show ?case by (cases bs) auto
qed

lemma dlist_suffix:
  "dlist m k0 k1 p (as @ b # bs) \<Longrightarrow> dlist m k0 k1 b (b # bs)"
  by (induction as arbitrary: p) auto

lemma dlist_head_notin:
  assumes "dlist m k0 k1 p (b # bs)"
  shows "b \<notin> set bs"
proof
  assume "b \<in> set bs"
  then obtain xs ys where bs: "bs = xs @ b # ys" by (auto simp: in_set_conv_decomp)
  have "dlist m k0 k1 b (b # ys)"
    using assms dlist_suffix [of m k0 k1 p "b # xs" b ys] by (simp add: bs)
  moreover have "dlist m k0 k1 b (b # bs)" using assms by simp
  ultimately have "b # ys = b # bs" by (rule dlist_unique)
  then show False by (simp add: bs)
qed

lemma dlist_upd_notin:
  "b \<notin> set bs \<Longrightarrow> dlist (m(b := v)) k0 k1 p bs = dlist m k0 k1 p bs"
  by (induction bs arbitrary: p) auto




text \<open>The loop returns on every walkable list, with the last block of the list.\<close>

lemma absorb_reencode_walk:
  assumes "dlist (mem s) (key0 (heaps s from)) (key1 (heaps s from)) b (b # bs)"
  shows "absorb_reencode heap from b s =
           Some (last (b # bs),
                 s\<lparr>mem := relink (key0 (heaps s heap)) (key1 (heaps s heap)) (b # bs) (mem s)\<rparr>)"
  using assms
proof (induction bs arbitrary: b s)
  case Nil
  then show ?case
    by (subst absorb_reencode.simps) (simp add: mi_block_nextx_def)
next
  case (Cons c r)
  let ?s1 = "mi_block_set_nextx b c (key0 (heaps s heap)) (key1 (heaps s heap)) s"
  have nb: "b \<notin> set (c # r)" using Cons.prems by (rule dlist_head_notin)
  have c: "mi_ptr_decode (key0 (heaps s from)) (key1 (heaps s from)) (mem s b) = c" "c \<noteq> 0"
    using Cons.prems by auto
  have tl: "dlist (mem s) (key0 (heaps s from)) (key1 (heaps s from)) c (c # r)"
    using Cons.prems by simp
  have s1: "mem ?s1 = (mem s)(b := mi_ptr_encode (key0 (heaps s heap)) (key1 (heaps s heap)) c)"
    "heaps ?s1 = heaps s"
    by (simp_all add: mi_block_set_nextx_def)
  have "dlist (mem ?s1) (key0 (heaps ?s1 from)) (key1 (heaps ?s1 from)) c (c # r)"
    unfolding s1 using tl nb by (metis dlist_upd_notin)
  from Cons.IH [OF this]
  have "absorb_reencode heap from c ?s1 =
          Some (last (c # r),
                ?s1\<lparr>mem := relink (key0 (heaps ?s1 heap)) (key1 (heaps ?s1 heap)) (c # r) (mem ?s1)\<rparr>)" .
  then show ?case
    using c by (subst absorb_reencode.simps) (simp add: mi_block_nextx_def mi_block_set_nextx_def)
qed


subsection \<open>The whole operation\<close>

lemma absorb_nothing:
  "from = 0 \<or> page_count (heaps s from) = 0 \<Longrightarrow> mi_heap_absorb X heap from s = Some s"
  by (simp add: mi_heap_absorb_def)

lemma absorb_steps:
  assumes ne: "heap \<noteq> from" and nz: "from \<noteq> 0" "page_count (heaps s from) \<noteq> 0"
    and dl: "delayed_list s from bs"
  shows "mi_heap_absorb X heap from s = Some (absorb_post X heap from bs s)"
proof -
  define s1 where "s1 = fold (absorb_bin heap from) (all_bins X) s"
  define s2 where "s2 = upd_heap from (\<lambda>h. h\<lparr>thread_delayed_free := 0\<rparr>) s1"
  have h1: "heaps s1 heap = (heaps s heap)
       \<lparr>pages := (\<lambda>i. if i \<in> set (all_bins X) then pages (heaps s heap) i @ pages (heaps s from) i
                        else pages (heaps s heap) i),
        page_count := page_count (heaps s heap)
                        + of_nat (length (queue_pages (heaps s from) (all_bins X)))\<rparr>"
    unfolding s1_def using ne by (intro fold_absorb_heap) auto
  have f1: "heaps s1 from = (heaps s from)
       \<lparr>page_count := page_count (heaps s from)
                        - of_nat (length (queue_pages (heaps s from) (all_bins X)))\<rparr>"
    unfolding s1_def using ne by (rule fold_absorb_from)
  have o1: "\<And>h. h \<noteq> heap \<Longrightarrow> h \<noteq> from \<Longrightarrow> heaps s1 h = heaps s h"
    unfolding s1_def using ne by (simp add: fold_absorb_other)
  have p1: "page_tab s1 =
      fold (set_page_heap heap) (queue_pages (heaps s from) (all_bins X)) (page_tab s)"
    unfolding s1_def using ne by (rule fold_absorb_page_tab)
  have r1: "mem s1 = mem s" "tlds s1 = tlds s" "abandoned s1 = abandoned s"
    "default_heap s1 = default_heap s" "freed s1 = freed s"
    by (simp_all add: s1_def)
  have first: "thread_delayed_free (heaps s1 from) = thread_delayed_free (heaps s from)"
    by (simp add: f1)
  have unfold: "mi_heap_absorb X heap from s =
     (if thread_delayed_free (heaps s from) \<noteq> 0
      then (case absorb_reencode heap from (thread_delayed_free (heaps s from)) s2 of
              None \<Rightarrow> None
            | Some (last', s3) \<Rightarrow>
                Some (mi_heap_reset_pages from
                  (upd_heap heap
                     (\<lambda>h. h\<lparr>thread_delayed_free := thread_delayed_free (heaps s from)\<rparr>)
                     (mi_block_set_nextx last' (thread_delayed_free (heaps s3 heap))
                        (key0 (heaps s3 heap)) (key1 (heaps s3 heap)) s3))))
      else Some (mi_heap_reset_pages from s2))"
    using nz by (auto simp add: mi_heap_absorb_def Let_def s2_def first [unfolded s1_def]
        s1_def split: option.split prod.split)
  show ?thesis
  proof (cases bs)
    case Nil
    then have z: "thread_delayed_free (heaps s from) = 0"
      using dl by (simp add: delayed_list_def)
    have "mi_heap_reset_pages from s2 = absorb_post X heap from bs s"
      apply (rule state.equality)
      using ne Nil
             apply (simp_all add: r1 p1 absorb_post_def Let_def mi_heap_reset_pages_def s2_def)
      apply (rule ext)
      apply (auto simp add: h1 f1 o1)
      done
    then show ?thesis by (simp add: unfold z)
  next
    case (Cons b r)
    then have b: "thread_delayed_free (heaps s from) = b" "b \<noteq> 0"
      using dl by (simp_all add: delayed_list_def)
    have k2: "key0 (heaps s2 from) = key0 (heaps s from)"
      "key1 (heaps s2 from) = key1 (heaps s from)"
      "key0 (heaps s2 heap) = key0 (heaps s heap)"
      "key1 (heaps s2 heap) = key1 (heaps s heap)"
      "mem s2 = mem s"
      using ne by (simp_all add: s2_def f1 h1 r1)
    have "dlist (mem s2) (key0 (heaps s2 from)) (key1 (heaps s2 from)) b (b # r)"
      using dl Cons by (simp add: k2 delayed_list_def)
    from absorb_reencode_walk [OF this, of heap]
    have walk: "absorb_reencode heap from b s2 =
       Some (last (b # r),
             s2\<lparr>mem := relink (key0 (heaps s heap)) (key1 (heaps s heap)) (b # r) (mem s)\<rparr>)"
      by (simp only: k2)
    have "mi_heap_reset_pages from
            (upd_heap heap (\<lambda>h. h\<lparr>thread_delayed_free := b\<rparr>)
               (mi_block_set_nextx (last (b # r)) (thread_delayed_free (heaps s2 heap))
                  (key0 (heaps s2 heap)) (key1 (heaps s2 heap))
                  (s2\<lparr>mem := relink (key0 (heaps s heap)) (key1 (heaps s heap)) (b # r) (mem s)\<rparr>)))
           = absorb_post X heap from bs s"
      apply (rule state.equality)
      using ne Cons
             apply (simp_all add: r1 p1 k2 absorb_post_def Let_def mi_heap_reset_pages_def
                 mi_block_set_nextx_def s2_def del: last.simps relink.simps)
      apply (rule ext)
      apply (auto simp add: h1 f1 o1 simp del: last.simps relink.simps)
      done
    then show ?thesis by (simp add: unfold b walk del: last.simps relink.simps)
  qed
qed

lemma absorb_post_heaps:
  "heap \<noteq> from \<Longrightarrow>
   heaps (absorb_post X heap from bs s) h =
     (if h = from
      then (heaps s from)\<lparr>pages := (\<lambda>_. []), thread_delayed_free := 0, page_count := 0\<rparr>
      else if h = heap
      then (heaps s heap)
        \<lparr>pages := (\<lambda>i. if i \<le> MI_BIN_FULL X then pages (heaps s heap) i @ pages (heaps s from) i
                         else pages (heaps s heap) i),
         page_count := page_count (heaps s heap)
                         + of_nat (length (queue_pages (heaps s from) (all_bins X))),
         thread_delayed_free := (if bs = [] then thread_delayed_free (heaps s heap) else hd bs)\<rparr>
      else heaps s h)"
  by (simp add: absorb_post_def Let_def)

lemma absorb_post_frame [simp]:
  "tlds (absorb_post X heap from bs s) = tlds s"
  "abandoned (absorb_post X heap from bs s) = abandoned s"
  "default_heap (absorb_post X heap from bs s) = default_heap s"
  "freed (absorb_post X heap from bs s) = freed s"
  "page_tab (absorb_post X heap from bs s) =
     fold (set_page_heap heap) (queue_pages (heaps s from) (all_bins X)) (page_tab s)"
  by (simp_all add: absorb_post_def Let_def)


section \<open>C5: page counts across \<^verbatim>\<open>mi_heap_absorb\<close>\<close>

text \<open>
  C5. For two different heaps \<open>A\<close> and \<open>B\<close>, where \<open>B\<close> counts its pages as the data model
  requires and its delayed-free list is walkable, \<^verbatim>\<open>mi_heap_absorb(A, B)\<close> returns, and
  afterwards the page count of \<open>A\<close> is the sum of the two counts before (in \<^verbatim>\<open>size_t\<close>), the
  page count of \<open>B\<close> is 0, and in every bin the queue of \<open>A\<close> is its old queue followed by the
  old queue of \<open>B\<close>, each page of which now names \<open>A\<close> as its heap.
\<close>
theorem C5_absorb_is_additive:
  assumes ne: "A \<noteq> B" and nz: "B \<noteq> 0"
    and counted: "heap_pages_counted X s B"
    and dl: "delayed_list s B bs"
  shows "\<exists>s'. mi_heap_absorb X A B s = Some s' \<and>
           page_count (heaps s' A) = page_count (heaps s A) + page_count (heaps s B) \<and>
           page_count (heaps s' B) = 0 \<and>
           (\<forall>i \<le> MI_BIN_FULL X.
              pages (heaps s' A) i = pages (heaps s A) i @ pages (heaps s B) i \<and>
              (\<forall>page \<in> set (pages (heaps s B) i). page_heap (page_tab s' page) = A))"
proof (cases "page_count (heaps s B) = 0")
  case True
  then have "queue_pages (heaps s B) (all_bins X) = []"
    using counted by (simp add: heap_pages_counted_def)
  then have empty: "\<And>i. i \<le> MI_BIN_FULL X \<Longrightarrow> pages (heaps s B) i = []"
    by (simp add: queue_pages_def)
  have "mi_heap_absorb X A B s = Some s"
    using True by (simp add: absorb_nothing)
  then show ?thesis using True empty by simp
next
  case False
  have total: "(of_nat (length (queue_pages (heaps s B) (all_bins X))) :: 64 word)
                 = page_count (heaps s B)"
  proof -
    have "length (queue_pages (heaps s B) (all_bins X)) = unat (page_count (heaps s B))"
      using counted by (simp add: heap_pages_counted_def)
    then show ?thesis by simp
  qed
  have run: "mi_heap_absorb X A B s = Some (absorb_post X A B bs s)"
    using ne nz False dl by (rule absorb_steps)
  have owner: "page_heap (page_tab (absorb_post X A B bs s) page) = A"
    if "i \<le> MI_BIN_FULL X" "page \<in> set (pages (heaps s B) i)" for i page
  proof -
    have "page \<in> set (queue_pages (heaps s B) (all_bins X))"
      using that by (auto simp: in_queue_pages)
    then show ?thesis by (simp add: fold_set_page_heap)
  qed
  show ?thesis
    using ne run total owner by (simp add: absorb_post_heaps)
qed

theorem C5_absorb_is_additive_witness:
  "heap_pages_counted env0 st_family 0x200 \<and>
   delayed_list st_family 0x200 [0x501000, 0x501020] \<and>
   (\<exists>s'. mi_heap_absorb env0 0x100 0x200 st_family = Some s' \<and>
      page_count (heaps s' 0x100) = 2 \<and> page_count (heaps s' 0x200) = 0 \<and>
      pages (heaps s' 0x100) 0 = [0x400000] \<and> pages (heaps s' 0x100) 1 = [0x500000] \<and>
      page_heap (page_tab s' 0x500000) = 0x100)"
proof -
  have counted: "heap_pages_counted env0 st_family 0x200"
    by (simp add: heap_pages_counted_def queue_pages_def example_defs upt_rec)
  have dl: "delayed_list st_family 0x200 [0x501000, 0x501020]"
    by (simp add: delayed_list_def example_defs)
  have ne: "(0x100::addr) \<noteq> 0x200" "(0x200::addr) \<noteq> 0" by simp_all
  from C5_absorb_is_additive [OF ne counted dl]
  obtain s' where run: "mi_heap_absorb env0 0x100 0x200 st_family = Some s'"
    and cnt: "page_count (heaps s' 0x100) =
                page_count (heaps st_family 0x100) + page_count (heaps st_family 0x200)"
      "page_count (heaps s' 0x200) = 0"
    and bins: "\<forall>i \<le> MI_BIN_FULL env0.
              pages (heaps s' 0x100) i
                = pages (heaps st_family 0x100) i @ pages (heaps st_family 0x200) i \<and>
              (\<forall>page \<in> set (pages (heaps st_family 0x200) i).
                  page_heap (page_tab s' page) = 0x100)"
    by blast
  have b0: "pages (heaps s' 0x100) 0 = [0x400000]"
    using bins [rule_format, of 0] by (simp add: example_defs)
  have b1: "pages (heaps s' 0x100) 1 = [0x500000] \<and> page_heap (page_tab s' 0x500000) = 0x100"
    using bins [rule_format, of 1] by (simp add: example_defs)
  have "page_count (heaps s' 0x100) = 2"
    using cnt by (simp add: example_defs)
  then show ?thesis using counted dl run cnt(2) b0 b1 by simp
qed

section \<open>C3: the delayed-free list across \<^verbatim>\<open>mi_heap_absorb\<close>\<close>




section \<open>C4: what \<^verbatim>\<open>mi_heap_delete\<close> leaves\<close>


lemma backing_of_absorb_post:
  "heap \<noteq> from \<Longrightarrow> backing_of (absorb_post X heap from bs s) h = backing_of s h"
  by (simp add: backing_of_def absorb_post_heaps)

lemma heap_free_backing: "mi_heap_is_backing s heap \<Longrightarrow> mi_heap_free heap s = s"
  by (simp add: mi_heap_free_def)

lemma heap_free_non_backing:
  assumes "\<not> mi_heap_is_backing s heap"
  shows "freed (mi_heap_free heap s) = insert heap (freed s)"
    and "default_heap (mi_heap_free heap s) =
           (if default_heap s = heap then backing_of s heap else default_heap s)"
    and "heaps (mi_heap_free heap s) = heaps s"
    and "page_tab (mi_heap_free heap s) = page_tab s"
    and "tlds (mi_heap_free heap s) = tlds s"
    and "mem (mi_heap_free heap s) = mem s"
    and "abandoned (mi_heap_free heap s) = abandoned s"
  using assms
  by (auto simp: mi_heap_free_def mi_heap_is_default_def mi_heap_set_default_direct_def
      mi_free_def backing_of_def Let_def)

lemma heap_free_keeps_default_live:
  assumes "default_heap s \<notin> freed s" "backing_of s heap \<notin> freed s"
  shows "default_heap (mi_heap_free heap s) \<notin> freed (mi_heap_free heap s)"
proof (cases "mi_heap_is_backing s heap")
  case True
  then show ?thesis using assms by (simp add: heap_free_backing)
next
  case False
  then have "backing_of s heap \<noteq> heap"
    by (simp add: mi_heap_is_backing_def backing_of_def)
  then show ?thesis using assms False by (auto simp: heap_free_non_backing)
qed

lemma delete_non_backing:
  assumes init: "mi_heap_is_initialized s heap" and nb: "\<not> mi_heap_is_backing s heap"
    and nz: "heap \<noteq> 0" and dl: "delayed_list s heap bs"
  shows "mi_heap_delete X heap s =
           Some (mi_heap_free heap
                   (if page_count (heaps s heap) = 0 then s
                    else absorb_post X (backing_of s heap) heap bs s))"
proof -
  have ne: "backing_of s heap \<noteq> heap"
    using nb by (simp add: mi_heap_is_backing_def backing_of_def)
  have "mi_heap_absorb X (backing_of s heap) heap s =
          Some (if page_count (heaps s heap) = 0 then s
                else absorb_post X (backing_of s heap) heap bs s)"
    using absorb_steps [OF ne nz _ dl, of X] by (simp add: absorb_nothing)
  then show ?thesis
    using init nb by (simp add: mi_heap_delete_def backing_of_def)
qed



text \<open>
  C4 says that when \<^verbatim>\<open>mi_heap_delete\<close> returns the heap's page count is 0 and its storage is
  released, backing heap or not; the assertion \<^verbatim>\<open>mi_assert_internal(heap->page_count==0)\<close>
  that follows both branches of \<^verbatim>\<open>mi_heap_delete\<close> says the same of the page count. The code
  does not do so for a backing heap that holds live pages: deleting the backing heap 0x100 of
  \<open>st_family\<close> returns with the heap still counting its page, its storage not released, and
  the heap on top of the abandoned stack. It does so for the child heap 0x200 of \<open>st_family\<close>
  and for the backing heap of \<open>st_lone\<close>, which holds no page.
\<close>

theorem C4_delete_backing_heap_keeps_pages:
  "mi_heap_is_initialized st_family 0x100 \<and> mi_heap_is_backing st_family 0x100 \<and>
   mi_heap_delete env0 0x100 st_family \<noteq> None \<and>
   page_count (heaps (the (mi_heap_delete env0 0x100 st_family)) 0x100) = 1 \<and>
   pages (heaps (the (mi_heap_delete env0 0x100 st_family)) 0x100) 0 = [0x400000] \<and>
   0x100 \<notin> freed (the (mi_heap_delete env0 0x100 st_family)) \<and>
   abandoned (the (mi_heap_delete env0 0x100 st_family)) = 0x100 \<and>
   mi_heap_delete env0 0x200 st_family \<noteq> None \<and>
   page_count (heaps (the (mi_heap_delete env0 0x200 st_family)) 0x200) = 0 \<and>
   0x200 \<in> freed (the (mi_heap_delete env0 0x200 st_family)) \<and>
   mi_heap_is_backing st_lone 0x100 \<and>
   mi_heap_delete env0 0x100 st_lone \<noteq> None \<and>
   page_count (heaps (the (mi_heap_delete env0 0x100 st_lone)) 0x100) = 0 \<and>
   0x100 \<in> freed (the (mi_heap_delete env0 0x100 st_lone))"
  by (simp add: mi_heap_delete_def mi_heap_is_initialized_def mi_heap_is_backing_def
      mi_heap_collect_abandon_def mi_heap_collect_ex_def mi_heap_try_reclaim_abandoned_def
      mi_heap_prepend_abandoned_def mi_heap_free_def mi_heap_backing_free_def
      mi_heap_is_default_def mi_heap_set_default_direct_def mi_free_def
      mi_heap_absorb_def absorb_bin_def mi_page_queue_append_def mi_heap_reset_pages_def
      set_page_heap_def absorb_reencode.simps mi_block_nextx_def mi_block_set_nextx_def
      mi_ptr_decode_def mi_ptr_encode_def Let_def upt_rec st_lone_def example_defs)

section \<open>C10: the release step and the default heap\<close>

lemma same_identity_refl [simp]: "same_identity s s"
  by (simp add: same_identity_def)

lemma same_identity_trans:
  "same_identity s s1 \<Longrightarrow> same_identity s1 s2 \<Longrightarrow> same_identity s s2"
  by (simp add: same_identity_def)

lemma visit_queue_same_identity:
  assumes "\<And>page a s. same_identity s (snd (snd (fn page a s)))"
  shows "same_identity s (snd (snd (visit_queue fn ps a s)))"
proof (induction ps arbitrary: a s)
  case Nil
  then show ?case by simp
next
  case (Cons page ps)
  obtain ok a' s' where r: "fn page a s = (ok, a', s')" by (cases "fn page a s")
  have step: "same_identity s s'" using assms [of s page a] by (simp add: r)
  show ?case
  proof (cases ok)
    case True
    then show ?thesis
      using same_identity_trans [OF step Cons.IH [of s' a']] by (simp add: r)
  next
    case False
    then show ?thesis using step by (simp add: r)
  qed
qed

lemma visit_bins_same_identity:
  assumes "\<And>heap i page a s. same_identity s (snd (snd (fn heap i page a s)))"
  shows "same_identity s (snd (snd (visit_bins fn heap bins a s)))"
proof (induction bins arbitrary: a s)
  case Nil
  then show ?case by simp
next
  case (Cons i bins)
  obtain ok a' s' where r: "visit_queue (fn heap i) (pages (heaps s heap) i) a s = (ok, a', s')"
    by (cases "visit_queue (fn heap i) (pages (heaps s heap) i) a s")
  have step: "same_identity s s'"
    using visit_queue_same_identity [of "fn heap i" s "pages (heaps s heap) i" a] assms
    by (simp add: r)
  show ?case
  proof (cases ok)
    case True
    then show ?thesis
      using same_identity_trans [OF step Cons.IH [of s' a']] by (simp add: r)
  next
    case False
    then show ?thesis using step by (simp add: r)
  qed
qed

lemma page_destroy_same_identity:
  assumes "page_destroy_frame X"
  shows "same_identity s (snd (snd (mi_heap_page_destroy X heap pq page u s)))"
proof -
  have a: "\<And>page force t s. same_identity s (mi_segment_page_free X page force t s)"
    and b: "\<And>k t n s. same_identity s (mi_stat_decrease X k t n s)"
    using assms by (simp_all add: page_destroy_frame_def)
  define s1 where "s1 = (if block_size (page_tab s page) > MI_LARGE_OBJ_SIZE_MAX X
                then (if block_size (page_tab s page) > MI_HUGE_OBJ_SIZE_MAX X
                      then mi_stat_decrease X Stat_giant (tld (heaps s heap)) (block_size (page_tab s page)) s
                      else mi_stat_decrease X Stat_huge (tld (heaps s heap)) (block_size (page_tab s page)) s)
                else s)"
  define s2 where "s2 = s1\<lparr>page_tab := (page_tab s1)(page := (page_tab s1 page)\<lparr>used := 0\<rparr>)\<rparr>"
  have 1: "same_identity s s1" using b by (simp add: s1_def)
  have 2: "same_identity s1 s2" by (simp add: s2_def same_identity_def)
  have 3: "same_identity s2 (mi_segment_page_free X page False (tld (heaps s2 heap)) s2)"
    by (rule a)
  have "snd (snd (mi_heap_page_destroy X heap pq page u s))
          = mi_segment_page_free X page False (tld (heaps s2 heap)) s2"
    by (simp add: mi_heap_page_destroy_def Let_def s1_def s2_def)
  then show ?thesis
    using same_identity_trans [OF same_identity_trans [OF 1 2] 3] by simp
qed

lemma destroy_pages_same_identity:
  assumes "page_destroy_frame X"
  shows "same_identity s (mi_heap_destroy_pages X heap s)"
proof -
  define s1 where "s1 = snd (snd (mi_heap_visit_pages X (mi_heap_page_destroy X) heap () s))"
  have "same_identity s s1"
    unfolding s1_def mi_heap_visit_pages_def
    using visit_bins_same_identity [of "mi_heap_page_destroy X" s heap "all_bins X" "()"]
      page_destroy_same_identity [OF assms]
    by simp
  moreover have "same_identity s1 (mi_heap_reset_pages heap s1)"
    by (simp add: same_identity_def mi_heap_reset_pages_def)
  ultimately show ?thesis
    unfolding mi_heap_destroy_pages_def s1_def by (rule same_identity_trans)
qed

lemma same_identity_backing:
  assumes "same_identity s s'"
  shows "mi_heap_is_backing s' h = mi_heap_is_backing s h" "backing_of s' h = backing_of s h"
  using assms by (simp_all add: same_identity_def mi_heap_is_backing_def backing_of_def)

text \<open>
  C10, as the code has it. \<^verbatim>\<open>mi_heap_free\<close> leaves a backing heap, and the whole state, as it
  is; it releases any other heap, after setting the thread's default heap to the backing heap
  when the released heap was the default. So when the default heap and the backing heap are
  live before, the default heap is live after the release step, and after \<^verbatim>\<open>mi_heap_delete\<close>
  and \<^verbatim>\<open>mi_heap_destroy\<close> of a heap that is not the backing heap.
\<close>

theorem C10_release_keeps_default_live:
  assumes live: "default_heap s \<notin> freed s" "backing_of s heap \<notin> freed s"
  shows "(if mi_heap_is_backing s heap then mi_heap_free heap s = s
          else freed (mi_heap_free heap s) = insert heap (freed s) \<and>
               default_heap (mi_heap_free heap s)
                 = (if default_heap s = heap then backing_of s heap else default_heap s)) \<and>
         default_heap (mi_heap_free heap s) \<notin> freed (mi_heap_free heap s) \<and>
         (mi_heap_is_initialized s heap \<and> \<not> mi_heap_is_backing s heap \<and> heap \<noteq> 0 \<and>
          delayed_list s heap bs \<longrightarrow>
            (\<exists>s'. mi_heap_delete X heap s = Some s' \<and> default_heap s' \<notin> freed s')) \<and>
         (mi_heap_is_initialized s heap \<and> \<not> mi_heap_is_backing s heap \<and>
          (if no_reclaim (heaps s heap) then page_destroy_frame X
           else heap \<noteq> 0 \<and> delayed_list s heap bs) \<longrightarrow>
            (\<exists>s'. mi_heap_destroy X heap s = Some s' \<and> default_heap s' \<notin> freed s'))"
proof -
  have free_step: "if mi_heap_is_backing s heap then mi_heap_free heap s = s
          else freed (mi_heap_free heap s) = insert heap (freed s) \<and>
               default_heap (mi_heap_free heap s)
                 = (if default_heap s = heap then backing_of s heap else default_heap s)"
    by (simp add: heap_free_backing heap_free_non_backing)
  have kept: "default_heap (mi_heap_free heap s) \<notin> freed (mi_heap_free heap s)"
    using live by (rule heap_free_keeps_default_live)
  have del: "\<exists>s'. mi_heap_delete X heap s = Some s' \<and> default_heap s' \<notin> freed s'"
    if init: "mi_heap_is_initialized s heap" and nb: "\<not> mi_heap_is_backing s heap"
      and nz: "heap \<noteq> 0" and dl: "delayed_list s heap bs"
  proof -
    have ne: "backing_of s heap \<noteq> heap"
      using nb by (simp add: mi_heap_is_backing_def backing_of_def)
    define s1 where "s1 = (if page_count (heaps s heap) = 0 then s
                           else absorb_post X (backing_of s heap) heap bs s)"
    have run: "mi_heap_delete X heap s = Some (mi_heap_free heap s1)"
      unfolding s1_def using init nb nz dl by (rule delete_non_backing)
    have "default_heap s1 \<notin> freed s1" "backing_of s1 heap \<notin> freed s1"
      using live ne by (simp_all add: s1_def backing_of_absorb_post)
    then have "default_heap (mi_heap_free heap s1) \<notin> freed (mi_heap_free heap s1)"
      by (rule heap_free_keeps_default_live)
    then show ?thesis using run by simp
  qed
  have destr: "\<exists>s'. mi_heap_destroy X heap s = Some s' \<and> default_heap s' \<notin> freed s'"
    if init: "mi_heap_is_initialized s heap" and nb: "\<not> mi_heap_is_backing s heap"
      and pre: "if no_reclaim (heaps s heap) then page_destroy_frame X
                else heap \<noteq> 0 \<and> delayed_list s heap bs"
  proof (cases "no_reclaim (heaps s heap)")
    case True
    define s2 where "s2 = mi_heap_destroy_pages X heap s"
    have "same_identity s s2"
      unfolding s2_def using pre True by (simp add: destroy_pages_same_identity)
    then have "default_heap s2 \<notin> freed s2" "backing_of s2 heap \<notin> freed s2"
      using live by (simp_all add: same_identity_backing) (simp_all add: same_identity_def)
    then have "default_heap (mi_heap_free heap s2) \<notin> freed (mi_heap_free heap s2)"
      by (rule heap_free_keeps_default_live)
    moreover have "mi_heap_destroy X heap s = Some (mi_heap_free heap s2)"
      using init True by (simp add: mi_heap_destroy_def s2_def)
    ultimately show ?thesis by simp
  next
    case False
    then have "mi_heap_destroy X heap s = mi_heap_delete X heap s"
      using init by (simp add: mi_heap_destroy_def)
    then show ?thesis using del [OF init nb] pre False by simp
  qed
  show ?thesis using free_step kept del destr by blast
qed

text \<open>
  In \<open>st_family\<close> the child heap 0x200 is the default heap: releasing, deleting or destroying
  it makes the backing heap 0x100 the default.
\<close>

theorem C10_release_keeps_default_live_witness:
  "default_heap st_family = 0x200 \<and> backing_of st_family 0x200 = 0x100 \<and>
   freed st_family = {} \<and> page_destroy_frame env0 \<and>
   default_heap (mi_heap_free 0x200 st_family) = 0x100 \<and>
   freed (mi_heap_free 0x200 st_family) = {0x200} \<and>
   mi_heap_free 0x100 st_family = st_family \<and>
   (\<exists>s'. mi_heap_delete env0 0x200 st_family = Some s' \<and> default_heap s' \<notin> freed s') \<and>
   (\<exists>s'. mi_heap_destroy env0 0x200 st_family = Some s' \<and> default_heap s' \<notin> freed s')"
proof -
  have d: "default_heap st_family = 0x200" "freed st_family = {}"
    by (simp_all add: example_defs)
  have B: "backing_of st_family 0x200 = 0x100" "backing_of st_family 0x100 = 0x100"
    by (simp_all add: backing_of_def example_defs)
  have bk: "\<not> mi_heap_is_backing st_family 0x200" "mi_heap_is_backing st_family 0x100"
    by (simp_all add: mi_heap_is_backing_def example_defs)
  have init: "mi_heap_is_initialized st_family 0x200"
    by (simp add: mi_heap_is_initialized_def example_defs)
  have dl: "delayed_list st_family 0x200 [0x501000, 0x501020]"
    by (simp add: delayed_list_def example_defs)
  have fr: "page_destroy_frame env0"
    by (simp add: page_destroy_frame_def same_identity_def env0_def)
  have live: "default_heap st_family \<notin> freed st_family"
    "backing_of st_family 0x200 \<notin> freed st_family" "backing_of st_family 0x100 \<notin> freed st_family"
    by (simp_all add: d)
  show ?thesis
    using C10_release_keeps_default_live [OF live(1,2), of "[0x501000, 0x501020]" env0]
      C10_release_keeps_default_live [OF live(1,3), of "[]" env0]
      d B bk init dl fr
    by simp
qed

text \<open>
  C10 as the specification states it fails for the delete of a backing heap that holds no
  page: in \<open>st_lone\<close> the backing heap 0x100 is the default heap; \<^verbatim>\<open>mi_heap_delete\<close> takes the
  abandon path, which releases the heap at once (\<^verbatim>\<open>_mi_heap_backing_free\<close>), and the release
  step then returns early for a backing heap, so the default heap is left naming released
  storage.
\<close>

theorem C10_delete_backing_counterexample:
  "mi_heap_is_backing st_lone 0x100 \<and> default_heap st_lone = 0x100 \<and>
   default_heap st_lone \<notin> freed st_lone \<and>
   mi_heap_delete env0 0x100 st_lone \<noteq> None \<and>
   default_heap (the (mi_heap_delete env0 0x100 st_lone)) = 0x100 \<and>
   default_heap (the (mi_heap_delete env0 0x100 st_lone))
     \<in> freed (the (mi_heap_delete env0 0x100 st_lone))"
  by (simp add: mi_heap_delete_def mi_heap_is_initialized_def mi_heap_is_backing_def
      mi_heap_collect_abandon_def mi_heap_collect_ex_def mi_heap_try_reclaim_abandoned_def
      mi_heap_prepend_abandoned_def mi_heap_free_def mi_heap_backing_free_def st_lone_def example_defs)

section \<open>The abandoned stack\<close>

lemma astack_upd_notin:
  "h \<notin> set rs \<Longrightarrow> astack (hs(h := v)) p rs = astack hs p rs"
  by (induction rs arbitrary: p) auto

lemma prepend_single:
  assumes nz: "first \<noteq> 0" and single: "abandoned_next (heaps s first) = 0"
  shows "\<exists>s'. mi_heap_prepend_abandoned first s = Some s' \<and>
           abandoned s' = first \<and>
           heaps s' = (heaps s)(first := (heaps s first)\<lparr>abandoned_next := abandoned s\<rparr>) \<and>
           freed s' = freed s"
proof (cases "abandoned s = 0")
  case True
  have "(heaps s)(first := (heaps s first)\<lparr>abandoned_next := 0\<rparr>) = heaps s"
    using single by (auto simp: fun_eq_iff)
  then show ?thesis
    using nz True by (simp add: mi_heap_prepend_abandoned_def)
next
  case False
  have "abandoned_last s first = Some first"
    using single by (subst abandoned_last.simps) simp
  then show ?thesis
    using nz False by (simp add: mi_heap_prepend_abandoned_def Let_def)
qed

lemma astack_unique: "astack hs p as \<Longrightarrow> astack hs p bs \<Longrightarrow> as = bs"
proof (induction as arbitrary: p bs)
  case Nil
  then show ?case by (cases bs) auto
next
  case (Cons a as)
  then show ?case by (cases bs) auto
qed

lemma astack_suffix: "astack hs p (as @ h # rs) \<Longrightarrow> astack hs h (h # rs)"
  by (induction as arbitrary: p) auto

lemma astack_head_notin:
  assumes "astack hs p (h # rs)"
  shows "h \<notin> set rs"
proof
  assume "h \<in> set rs"
  then obtain xs ys where rs: "rs = xs @ h # ys" by (auto simp: in_set_conv_decomp)
  have "astack hs h (h # ys)"
    using assms astack_suffix [of hs p "h # xs" h ys] by (simp add: rs)
  moreover have "astack hs h (h # rs)" using assms by simp
  ultimately have "h # ys = h # rs" by (rule astack_unique)
  then show False by (simp add: rs)
qed

lemma astack_distinct: "astack hs p rs \<Longrightarrow> distinct rs"
proof (induction rs arbitrary: p)
  case Nil
  then show ?case by simp
next
  case (Cons h rs)
  then show ?case using astack_head_notin [of hs p h rs] by auto
qed

lemma abandoned_last_walk:
  "astack (heaps s) f (f # fs) \<Longrightarrow> abandoned_last s f = Some (last (f # fs))"
proof (induction fs arbitrary: f)
  case Nil
  then show ?case by (subst abandoned_last.simps) simp
next
  case (Cons g fs)
  then have "abandoned_next (heaps s f) = g" "g \<noteq> 0" "astack (heaps s) g (g # fs)"
    by auto
  then show ?case
    using Cons.IH [of g] by (subst abandoned_last.simps) simp
qed

lemma astack_append_upd:
  assumes "astack hs f (f # fs)" "astack hs q rs" "set (f # fs) \<inter> set rs = {}"
  shows "astack (hs(last (f # fs) := (hs (last (f # fs)))\<lparr>abandoned_next := q\<rparr>)) f ((f # fs) @ rs)"
  using assms
proof (induction fs arbitrary: f)
  case Nil
  define M where "M = hs(f := (hs f)\<lparr>abandoned_next := q\<rparr>)"
  have "f \<notin> set rs" using Nil.prems by auto
  then have "astack M q rs"
    unfolding M_def using Nil.prems(2) by (metis astack_upd_notin)
  moreover have "abandoned_next (M f) = q" by (simp add: M_def)
  moreover have "f \<noteq> 0" using Nil.prems by simp
  ultimately have "astack M f (f # rs)" by simp
  moreover have "hs(last [f] := (hs (last [f]))\<lparr>abandoned_next := q\<rparr>) = M"
    by (simp add: M_def)
  ultimately show ?case by (simp only: append_Cons append_Nil)
next
  case (Cons g fs)
  define L where "L = last (g # fs)"
  define hs' where "hs' = hs(L := (hs L)\<lparr>abandoned_next := q\<rparr>)"
  have nf: "f \<notin> set (g # fs)" using Cons.prems(1) by (rule astack_head_notin)
  have "L \<in> set (g # fs)" unfolding L_def by (rule last_in_set) simp
  then have "L \<noteq> f" using nf by auto
  then have f': "hs' f = hs f" by (simp add: hs'_def)
  have "astack hs' g ((g # fs) @ rs)"
    unfolding hs'_def L_def using Cons.prems by (intro Cons.IH) auto
  moreover have "abandoned_next (hs f) = g" "f \<noteq> 0" using Cons.prems by auto
  ultimately have "astack hs' f (f # (g # fs) @ rs)" by (simp add: f')
  moreover have "hs(last (f # g # fs) := (hs (last (f # g # fs)))\<lparr>abandoned_next := q\<rparr>) = hs'"
    by (simp add: hs'_def L_def)
  ultimately show ?case by (simp only: append_Cons)
qed

text \<open>
  Prepending a list of abandoned heaps returns on every walkable list, and puts the list in
  front of the stack; the page counts are as they were.
\<close>

lemma prepend_abandoned_list:
  assumes fl: "astack (heaps s) first (first # fs)" and st: "abandoned_stack s rs"
    and dj: "set (first # fs) \<inter> set rs = {}"
  shows "\<exists>s'. mi_heap_prepend_abandoned first s = Some s' \<and>
           abandoned_stack s' ((first # fs) @ rs) \<and>
           (\<forall>h. page_count (heaps s' h) = page_count (heaps s h)) \<and> freed s' = freed s"
proof (cases "abandoned s = 0")
  case True
  then have "rs = []" using st by (cases rs) (auto simp: abandoned_stack_def)
  moreover have "first \<noteq> 0" using fl by simp
  ultimately show ?thesis
    using True fl by (simp add: mi_heap_prepend_abandoned_def abandoned_stack_def)
next
  case False
  have nz: "first \<noteq> 0" using fl by simp
  have lw: "abandoned_last s first = Some (last (first # fs))"
    using fl by (rule abandoned_last_walk)
  define L where "L = last (first # fs)"
  define s' where "s' = (upd_heap L (\<lambda>h. h\<lparr>abandoned_next := abandoned s\<rparr>) s)\<lparr>abandoned := first\<rparr>"
  have run: "mi_heap_prepend_abandoned first s = Some s'"
    using nz False lw by (simp add: mi_heap_prepend_abandoned_def Let_def s'_def L_def)
  have "astack ((heaps s)(L := (heaps s L)\<lparr>abandoned_next := abandoned s\<rparr>)) first ((first # fs) @ rs)"
    unfolding L_def using fl st dj by (intro astack_append_upd) (auto simp: abandoned_stack_def)
  then have "abandoned_stack s' ((first # fs) @ rs)"
    by (simp add: abandoned_stack_def s'_def)
  moreover have "\<forall>h. page_count (heaps s' h) = page_count (heaps s h)" "freed s' = freed s"
    by (simp_all add: s'_def)
  ultimately show ?thesis using run by simp
qed

text \<open>
  The last step of \<^verbatim>\<open>_mi_heap_collect_abandon(heap)\<close>. Let it have run its collect and
  finalized the statistics, reaching \<open>s1\<close>, where the abandoned stack holds the heaps \<open>rs\<close>,
  none of them empty and none of them \<open>heap\<close>. Then the function returns. If \<open>heap\<close> counts no
  page it is released at once and the stack is as it was; otherwise \<open>heap\<close>, with its
  \<^verbatim>\<open>abandoned_next\<close> first set to \<^verbatim>\<open>NULL\<close> and then linked to the old top, is the new top of the
  stack.
\<close>

lemma collect_abandon_final_step:
  assumes run: "mi_heap_collect_ex X heap ABANDON s = Some s0"
    and s1: "s1 = mi_stats_done X (tld (heaps s0 heap)) s0"
    and stack: "abandoned_stack s1 rs" and fresh: "heap \<notin> set rs" and nz: "heap \<noteq> 0"
    and nonempty: "\<forall>r \<in> set rs. page_count (heaps s1 r) \<noteq> 0"
  shows "\<exists>s'. mi_heap_collect_abandon X heap s = Some s' \<and>
           (\<forall>h. h \<noteq> heap \<longrightarrow> heaps s' h = heaps s1 h) \<and>
           (if page_count (heaps s1 heap) = 0
            then s' = mi_heap_backing_free heap s1 \<and> heap \<in> freed s' \<and>
                 abandoned_stack s' rs \<and> (\<forall>r \<in> set rs. page_count (heaps s' r) \<noteq> 0)
            else abandoned s' = heap \<and> abandoned_next (heaps s' heap) = abandoned s1 \<and>
                 freed s' = freed s1 \<and>
                 abandoned_stack s' (heap # rs) \<and>
                 (\<forall>r \<in> set (heap # rs). page_count (heaps s' r) \<noteq> 0))"
proof (cases "page_count (heaps s1 heap) = 0")
  case True
  have "mi_heap_collect_abandon X heap s = Some (mi_heap_backing_free heap s1)"
    using run True by (simp add: mi_heap_collect_abandon_def s1 Let_def)
  then show ?thesis
    using True stack nonempty by (simp add: mi_heap_backing_free_def abandoned_stack_def)
next
  case False
  define s2 where "s2 = upd_heap heap (\<lambda>h. h\<lparr>abandoned_next := 0\<rparr>) s1"
  have call: "mi_heap_collect_abandon X heap s = mi_heap_prepend_abandoned heap s2"
    using run False by (simp add: mi_heap_collect_abandon_def s1 s2_def Let_def)
  have "abandoned_next (heaps s2 heap) = 0" by (simp add: s2_def)
  from prepend_single [OF nz this]
  obtain s' where p: "mi_heap_prepend_abandoned heap s2 = Some s'" "abandoned s' = heap"
    "heaps s' = (heaps s2)(heap := (heaps s2 heap)\<lparr>abandoned_next := abandoned s2\<rparr>)"
    "freed s' = freed s2"
    by blast
  have hs: "heaps s' = (heaps s1)(heap := (heaps s1 heap)\<lparr>abandoned_next := abandoned s1\<rparr>)"
    by (simp add: p(3) s2_def)
  have "astack (heaps s') (abandoned s1) rs"
    using stack fresh by (simp add: hs astack_upd_notin abandoned_stack_def)
  then have st: "abandoned_stack s' (heap # rs)"
    using nz by (simp add: abandoned_stack_def p(2)) (simp add: hs)
  have pcs: "\<forall>r \<in> set (heap # rs). page_count (heaps s' r) \<noteq> 0"
    using nonempty False by (simp add: hs)
  have "abandoned_next (heaps s' heap) = abandoned s1" by (simp add: hs)
  moreover have "freed s' = freed s1" by (simp add: p(4) s2_def)
  moreover have "\<forall>h. h \<noteq> heap \<longrightarrow> heaps s' h = heaps s1 h" by (simp add: hs)
  ultimately show ?thesis
    using False call p(1,2) st pcs by simp
qed

text \<open>
  \<^verbatim>\<open>_mi_heap_try_reclaim_abandoned(heap, false)\<close> on a stack whose top \<open>r\<close> holds pages and is
  walkable: it pops \<open>r\<close>, absorbs it into \<open>heap\<close> and releases it.
\<close>

lemma reclaim_popped_stack:
  assumes "abandoned_stack s (r # rs)"
  shows "abandoned_stack (reclaim_popped r s) rs"
proof -
  have "r \<notin> set rs" using assms unfolding abandoned_stack_def by (rule astack_head_notin)
  then have "astack ((heaps s)(r := (heaps s r)\<lparr>abandoned_next := 0\<rparr>)) (abandoned_next (heaps s r)) rs"
    using assms by (simp add: abandoned_stack_def astack_upd_notin)
  then show ?thesis by (simp add: abandoned_stack_def reclaim_popped_def)
qed

lemma try_reclaim_pops_one:
  assumes nr: "\<not> no_reclaim (heaps s heap)" and st: "abandoned_stack s (r # rs)"
    and ne: "heap \<noteq> r" and pc: "page_count (heaps s r) \<noteq> 0" and dl: "delayed_list s r bs"
  shows "mi_heap_try_reclaim_abandoned X heap False s =
           (let s4 = absorb_post X heap r bs (reclaim_popped r s) in
            Some (mi_heap_backing_free r
                    (mi_segments_absorb X (thread_id (heaps s4 heap)) (tld (heaps s4 heap))
                       (tld (heaps s4 r)) s4)))"
proof -
  have top: "abandoned s = r" "r \<noteq> 0" using st by (simp_all add: abandoned_stack_def)
  define s3 where "s3 = reclaim_popped r s"
  have pre: "(let next = abandoned_next (heaps (s\<lparr>abandoned := 0\<rparr>) r);
                  s2 = upd_heap r (\<lambda>h. h\<lparr>abandoned_next := 0\<rparr>) (s\<lparr>abandoned := 0\<rparr>)
              in mi_heap_prepend_abandoned next s2) = Some s3"
    by (simp add: mi_heap_prepend_abandoned_def Let_def s3_def reclaim_popped_def upd_heap_def)
  have r3: "abandoned_next (heaps s3 r) = 0" "page_count (heaps s3 r) \<noteq> 0"
    using pc by (simp_all add: s3_def reclaim_popped_def)
  have dl3: "delayed_list s3 r bs"
    using dl by (simp add: delayed_list_def s3_def reclaim_popped_def)
  have ab: "mi_heap_absorb X heap r s3 = Some (absorb_post X heap r bs s3)"
    using ne top(2) r3(2) dl3 by (rule absorb_steps)
  have loop: "reclaim_loop X heap r s3 =
           (let s4 = absorb_post X heap r bs s3 in
            Some (mi_heap_backing_free r
                    (mi_segments_absorb X (thread_id (heaps s4 heap)) (tld (heaps s4 heap))
                       (tld (heaps s4 r)) s4)))"
    by (subst reclaim_loop.simps) (simp add: ab r3 Let_def)
  have "mi_heap_try_reclaim_abandoned X heap False s = reclaim_loop X heap r s3"
    using nr top pre by (simp add: mi_heap_try_reclaim_abandoned_def Let_def)
  then show ?thesis using loop by (simp add: s3_def)
qed

section \<open>Abandoning a heap: \<^verbatim>\<open>_mi_heap_collect_abandon\<close>\<close>

text \<open>
  Steps that keep to \<open>heap\<close> keep a stack of non-empty heaps that does not hold \<open>heap\<close>; the
  reclaim of a collect in mode \<^verbatim>\<open>ABANDON\<close> takes the top heap off such a stack, or leaves the
  stack as it is when \<open>heap\<close> does not reclaim.
\<close>

lemma astack_cong:
  "(\<forall>h \<in> set rs. hs' h = hs h) \<Longrightarrow> astack hs' p rs = astack hs p rs"
  by (induction rs arbitrary: p) auto

lemma stack_nonempty_cong:
  assumes "abandoned s' = abandoned s" and "\<forall>h \<in> set rs. heaps s' h = heaps s h"
  shows "stack_nonempty s' rs = stack_nonempty s rs"
  using assms astack_cong [of rs "heaps s'" "heaps s" "abandoned s"]
  by (auto simp: stack_nonempty_def abandoned_stack_def)

lemma keeps_others_stack:
  assumes "keeps_others heap f" and "heap \<notin> set rs"
  shows "stack_nonempty (f s) rs = stack_nonempty s rs"
proof (rule stack_nonempty_cong)
  show "abandoned (f s) = abandoned s" using assms(1) by (simp add: keeps_others_def)
  show "\<forall>h \<in> set rs. heaps (f s) h = heaps s h"
    using assms by (auto simp: keeps_others_def)
qed

lemma no_page_gained_refl [simp]: "no_page_gained heap s s"
  by (simp add: no_page_gained_def)

lemma no_page_gained_trans:
  "no_page_gained heap s s' \<Longrightarrow> no_page_gained heap s' s'' \<Longrightarrow> no_page_gained heap s s''"
  unfolding no_page_gained_def by blast


lemma keeps_others_no_gain: "keeps_others heap f \<Longrightarrow> no_page_gained heap s (f s)"
  by (simp add: keeps_others_def no_page_gained_def)

lemma try_reclaim_stack:
  assumes frame: "collect_frame X heap"
    and st: "stack_nonempty s rs" and fresh: "heap \<notin> set rs"
    and walk: "\<forall>r \<in> set rs. delayed_list s r (bss r)"
  shows "\<exists>s'. mi_heap_try_reclaim_abandoned X heap False s = Some s' \<and>
           stack_nonempty s' (if no_reclaim (heaps s heap) then rs else tl rs) \<and>
           no_page_gained heap s s'"
proof (cases "no_reclaim (heaps s heap)")
  case True
  then show ?thesis using st by (simp add: mi_heap_try_reclaim_abandoned_def)
next
  case nr: False
  show ?thesis
  proof (cases rs)
    case Nil
    then have "abandoned s = 0" using st by (simp add: stack_nonempty_def abandoned_stack_def)
    then show ?thesis using st nr Nil by (simp add: mi_heap_try_reclaim_abandoned_def)
  next
    case (Cons r rs')
    have stack: "abandoned_stack s (r # rs')" using st Cons by (simp add: stack_nonempty_def)
    have ne: "heap \<noteq> r" using fresh Cons by auto
    have pc: "page_count (heaps s r) \<noteq> 0" using st Cons by (simp add: stack_nonempty_def)
    have dl: "delayed_list s r (bss r)" using walk Cons by simp
    have rn: "r \<notin> set rs'" using stack unfolding abandoned_stack_def by (rule astack_head_notin)
    have hn: "heap \<notin> set rs'" using fresh Cons by simp
    define s3 where "s3 = reclaim_popped r s"
    define s4 where "s4 = absorb_post X heap r (bss r) s3"
    define s5 where "s5 = mi_segments_absorb X (thread_id (heaps s4 heap)) (tld (heaps s4 heap))
                       (tld (heaps s4 r)) s4"
    have run: "mi_heap_try_reclaim_abandoned X heap False s = Some (mi_heap_backing_free r s5)"
      using try_reclaim_pops_one [OF nr stack ne pc dl, of X]
      by (simp add: Let_def s3_def s4_def s5_def)
    have "abandoned_stack s3 rs'" unfolding s3_def using stack by (rule reclaim_popped_stack)
    moreover have "\<forall>h \<in> set rs'. heaps s3 h = heaps s h"
      using rn by (auto simp: s3_def reclaim_popped_def)
    ultimately have n3: "stack_nonempty s3 rs'"
      using st Cons by (simp add: stack_nonempty_def)
    have "stack_nonempty s4 rs' = stack_nonempty s3 rs'"
    proof (rule stack_nonempty_cong)
      show "abandoned s4 = abandoned s3" by (simp add: s4_def)
      show "\<forall>h \<in> set rs'. heaps s4 h = heaps s3 h"
        using rn hn ne by (auto simp: s4_def absorb_post_heaps)
    qed
    then have n4: "stack_nonempty s4 rs'" using n3 by simp
    have k5: "keeps_others heap (mi_segments_absorb X (thread_id (heaps s4 heap))
                       (tld (heaps s4 heap)) (tld (heaps s4 r)))"
      using frame by (simp add: collect_frame_def)
    then have n5: "stack_nonempty s5 rs'"
      using n4 hn keeps_others_stack unfolding s5_def by blast
    have n6: "stack_nonempty (mi_heap_backing_free r s5) rs'"
      using n5 by (simp add: stack_nonempty_def abandoned_stack_def mi_heap_backing_free_def)
    have "set (pages (heaps s4 h) i) \<subseteq> set (pages (heaps s h) i)" if h: "h \<noteq> heap" for h i
    proof (cases "h = r")
      case True
      have "pages (heaps s4 r) i = []" using ne by (simp add: s4_def absorb_post_heaps)
      then show ?thesis using True by simp
    next
      case False
      have "heaps s4 h = heaps s3 h" using ne h False by (simp add: s4_def absorb_post_heaps)
      moreover have "heaps s3 h = heaps s h" using False by (simp add: s3_def reclaim_popped_def)
      ultimately show ?thesis by simp
    qed
    then have g4: "no_page_gained heap s s4" by (simp add: no_page_gained_def)
    have g5: "no_page_gained heap s4 s5"
      unfolding s5_def using k5 by (rule keeps_others_no_gain)
    have g6: "no_page_gained heap s5 (mi_heap_backing_free r s5)"
      by (simp add: no_page_gained_def mi_heap_backing_free_def)
    have "no_page_gained heap s (mi_heap_backing_free r s5)"
      by (rule no_page_gained_trans [OF no_page_gained_trans [OF g4 g5] g6])
    then show ?thesis using run nr Cons n6 by simp
  qed
qed

lemma collect_abandon_mode_stack:
  assumes frame: "collect_frame X heap"
    and st: "stack_nonempty s rs" and fresh: "heap \<notin> set rs"
    and walk: "\<forall>r \<in> set rs. delayed_list s r (bss r)"
  shows "\<exists>s0. mi_heap_collect_ex X heap ABANDON s = Some s0 \<and>
           stack_nonempty s0
             (if mi_heap_is_initialized s heap \<and>
                 \<not> no_reclaim (heaps (mi_deferred_free X heap True s) heap)
              then tl rs else rs) \<and>
           no_page_gained heap s s0"
proof (cases "mi_heap_is_initialized s heap")
  case False
  then show ?thesis using st by (simp add: mi_heap_collect_ex_def)
next
  case True
  define s1 where "s1 = mi_deferred_free X heap True s"
  have k1: "keeps_others heap (mi_deferred_free X heap True)"
    using frame by (simp add: collect_frame_def)
  have st1: "stack_nonempty s1 rs"
    using st keeps_others_stack [OF k1 fresh] by (simp add: s1_def)
  have g1: "no_page_gained heap s s1"
    unfolding s1_def using k1 by (rule keeps_others_no_gain)
  have walk1: "\<forall>r \<in> set rs. delayed_list s1 r (bss r)"
  proof
    fix r assume r: "r \<in> set rs"
    then have "r \<noteq> heap" using fresh by auto
    moreover have "delayed_list s r (bss r)" using walk r by simp
    ultimately show "delayed_list s1 r (bss r)"
      using frame unfolding collect_frame_def s1_def by blast
  qed
  define rest where "rest = (if no_reclaim (heaps s1 heap) then rs else tl rs)"
  have fr: "heap \<notin> set rest" using fresh by (cases rs) (auto simp: rest_def)
  from try_reclaim_stack [OF frame st1 fresh walk1]
  obtain s2 where s2: "mi_heap_try_reclaim_abandoned X heap False s1 = Some s2"
    "stack_nonempty s2 rest" "no_page_gained heap s1 s2" by (auto simp: rest_def)
  define s3 where "s3 = mi_heap_delayed_free X heap s2"
  define s4 where "s4 = mi_heap_collect_retired X heap True s3"
  define s5 where "s5 = mi_segment_thread_collect X (tld (heaps s4 heap)) s4"
  define s6 where "s6 = (if mi_is_main_thread X s5 then mi_mem_collect X (tld (heaps s5 heap)) s5
                        else s5)"
  have run: "mi_heap_collect_ex X heap ABANDON s = Some s6"
    using True s2(1)
    by (simp add: mi_heap_collect_ex_def Let_def s1_def [symmetric] s3_def s4_def s5_def s6_def)
  have k3: "keeps_others heap (mi_heap_delayed_free X heap)"
    using frame by (simp add: collect_frame_def)
  then have n3: "stack_nonempty s3 rest"
    using s2(2) keeps_others_stack [OF _ fr] by (simp add: s3_def)
  have g3: "no_page_gained heap s2 s3"
    unfolding s3_def using k3 by (rule keeps_others_no_gain)
  have k4: "keeps_others heap (mi_heap_collect_retired X heap True)"
    using frame by (simp add: collect_frame_def)
  then have n4: "stack_nonempty s4 rest"
    using n3 keeps_others_stack [OF _ fr] by (simp add: s4_def)
  have g4: "no_page_gained heap s3 s4"
    unfolding s4_def using k4 by (rule keeps_others_no_gain)
  have k5: "keeps_others heap (mi_segment_thread_collect X (tld (heaps s4 heap)))"
    using frame by (simp add: collect_frame_def)
  then have n5: "stack_nonempty s5 rest"
    using n4 keeps_others_stack [OF _ fr] by (simp add: s5_def)
  have g5: "no_page_gained heap s4 s5"
    unfolding s5_def using k5 by (rule keeps_others_no_gain)
  have k6: "keeps_others heap (mi_mem_collect X (tld (heaps s5 heap)))"
    using frame by (simp add: collect_frame_def)
  then have n6: "stack_nonempty s6 rest"
    using n5 keeps_others_stack [OF _ fr] by (simp add: s6_def)
  have g6: "no_page_gained heap s5 s6"
    using keeps_others_no_gain [OF k6, of s5] by (simp add: s6_def)
  have "no_page_gained heap s s6"
    by (rule no_page_gained_trans [OF no_page_gained_trans [OF no_page_gained_trans
          [OF no_page_gained_trans [OF no_page_gained_trans [OF g1 s2(3)] g3] g4] g5] g6])
  then show ?thesis using run n6 True by (auto simp: rest_def s1_def split: if_splits)
qed


section \<open>C8: only heaps that hold pages are abandoned\<close>

text \<open>
  C8. Let the abandoned stack hold the heaps \<open>rs\<close>, each of them counting at least one page and
  walkable, none of them \<open>heap\<close>, and let the collaborators keep to \<open>heap\<close>. Then
  \<^verbatim>\<open>_mi_heap_collect_abandon(heap)\<close> returns, and with it its collect in mode \<^verbatim>\<open>ABANDON\<close>. The
  collect leaves on the stack the heaps \<open>rest\<close>: all of \<open>rs\<close>, or \<open>rs\<close> without its top when
  \<open>heap\<close> reclaims. If after the collect \<open>heap\<close> counts no page, it is released at once and the
  stack holds \<open>rest\<close>; otherwise its \<^verbatim>\<open>abandoned_next\<close> is linked to the old top, nothing is
  released, and the stack holds \<open>heap\<close> on top of \<open>rest\<close>. Either way every heap on the stack
  counts at least one page.
\<close>

theorem C8_abandon_keeps_stack_nonempty:
  assumes frame: "collect_frame X heap"
    and stack: "abandoned_stack s rs" and fresh: "heap \<notin> set rs" and nz: "heap \<noteq> 0"
    and nonempty: "\<forall>r \<in> set rs. page_count (heaps s r) \<noteq> 0"
    and walk: "\<forall>r \<in> set rs. delayed_list s r (bss r)"
  shows "\<exists>s0 s'. mi_heap_collect_ex X heap ABANDON s = Some s0 \<and>
           mi_heap_collect_abandon X heap s = Some s' \<and>
           (let s1 = mi_stats_done X (tld (heaps s0 heap)) s0;
                rest = (if mi_heap_is_initialized s heap \<and>
                           \<not> no_reclaim (heaps (mi_deferred_free X heap True s) heap)
                        then tl rs else rs)
            in if page_count (heaps s1 heap) = 0
               then s' = mi_heap_backing_free heap s1 \<and> heap \<in> freed s' \<and>
                    abandoned_stack s' rest \<and> (\<forall>r \<in> set rest. page_count (heaps s' r) \<noteq> 0)
               else abandoned s' = heap \<and> abandoned_next (heaps s' heap) = abandoned s1 \<and>
                    freed s' = freed s1 \<and> abandoned_stack s' (heap # rest) \<and>
                    (\<forall>r \<in> set (heap # rest). page_count (heaps s' r) \<noteq> 0))"
proof -
  define rest where "rest = (if mi_heap_is_initialized s heap \<and>
                           \<not> no_reclaim (heaps (mi_deferred_free X heap True s) heap)
                        then tl rs else rs)"
  have fr: "heap \<notin> set rest" using fresh by (cases rs) (auto simp: rest_def)
  have st: "stack_nonempty s rs" using stack nonempty by (simp add: stack_nonempty_def)
  from collect_abandon_mode_stack [OF frame st fresh walk]
  obtain s0 where s0: "mi_heap_collect_ex X heap ABANDON s = Some s0" "stack_nonempty s0 rest"
    by (auto simp: rest_def)
  define s1 where "s1 = mi_stats_done X (tld (heaps s0 heap)) s0"
  have "keeps_others heap (mi_stats_done X (tld (heaps s0 heap)))"
    using frame by (simp add: collect_frame_def)
  then have n1: "stack_nonempty s1 rest"
    using s0(2) keeps_others_stack [OF _ fr] by (simp add: s1_def)
  then have a: "abandoned_stack s1 rest" and b: "\<forall>r \<in> set rest. page_count (heaps s1 r) \<noteq> 0"
    by (simp_all add: stack_nonempty_def)
  from collect_abandon_final_step [OF s0(1) s1_def a fr nz b]
  show ?thesis using s0(1) by (auto simp: Let_def s1_def [symmetric] rest_def [symmetric])
qed

text \<open>
  In \<open>st_two_abandoned\<close> the stack holds 0x300 and 0x380. Abandoning the backing heap 0x100
  reclaims 0x300 on the way, so 0x100 then counts two pages and is pushed: the stack holds
  0x100 and 0x380. Abandoning the backing heap of \<open>st_lone\<close>, which holds no page, releases it
  at once and leaves the stack empty.
\<close>

theorem C8_abandon_witness:
  "collect_frame env0 0x100 \<and> abandoned_stack st_two_abandoned [0x300, 0x380] \<and>
   page_count (heaps st_two_abandoned 0x300) \<noteq> 0 \<and>
   page_count (heaps st_two_abandoned 0x380) \<noteq> 0 \<and>
   delayed_list st_two_abandoned 0x300 [] \<and> delayed_list st_two_abandoned 0x380 [] \<and>
   mi_heap_collect_abandon env0 0x100 st_two_abandoned \<noteq> None \<and>
   abandoned_stack (the (mi_heap_collect_abandon env0 0x100 st_two_abandoned)) [0x100, 0x380] \<and>
   page_count (heaps (the (mi_heap_collect_abandon env0 0x100 st_two_abandoned)) 0x100) = 2 \<and>
   page_count (heaps (the (mi_heap_collect_abandon env0 0x100 st_two_abandoned)) 0x380) = 1 \<and>
   0x100 \<notin> freed (the (mi_heap_collect_abandon env0 0x100 st_two_abandoned)) \<and>
   collect_frame env0 0x100 \<and> abandoned_stack st_lone [] \<and>
   mi_heap_collect_abandon env0 0x100 st_lone \<noteq> None \<and>
   0x100 \<in> freed (the (mi_heap_collect_abandon env0 0x100 st_lone)) \<and>
   abandoned_stack (the (mi_heap_collect_abandon env0 0x100 st_lone)) []"
proof -
  have fr: "collect_frame env0 0x100"
    by (simp add: collect_frame_def keeps_others_def env0_def)
  have h: "abandoned_stack st_two_abandoned [0x300, 0x380]"
    "page_count (heaps st_two_abandoned 0x300) \<noteq> 0"
    "page_count (heaps st_two_abandoned 0x380) \<noteq> 0"
    "delayed_list st_two_abandoned 0x300 []" "delayed_list st_two_abandoned 0x380 []"
    by (simp_all add: abandoned_stack_def delayed_list_def st_two_abandoned_def st_abandoned_def
        example_defs)
  have i: "mi_heap_is_initialized st_two_abandoned 0x100"
    "\<not> no_reclaim (heaps (mi_deferred_free env0 0x100 True st_two_abandoned) 0x100)"
    "mi_stats_done env0 = (\<lambda>t s. s)"
    by (simp_all add: mi_heap_is_initialized_def st_two_abandoned_def st_abandoned_def example_defs)
  have pc: "page_count (heaps (the (mi_heap_collect_ex env0 0x100 ABANDON st_two_abandoned)) 0x100) = 2"
    by (simp add: mi_heap_collect_ex_def mi_heap_is_initialized_def
      mi_heap_try_reclaim_abandoned_def mi_heap_prepend_abandoned_def reclaim_loop.simps
      mi_heap_absorb_def absorb_bin_def mi_page_queue_append_def mi_heap_reset_pages_def
      mi_heap_backing_free_def set_page_heap_def Let_def upt_rec st_two_abandoned_def
      st_abandoned_def example_defs)
  from C8_abandon_keeps_stack_nonempty
    [of env0 "0x100" st_two_abandoned "[0x300, 0x380]" "\<lambda>_. []"] fr h
  obtain s0 s' where s: "mi_heap_collect_ex env0 0x100 ABANDON st_two_abandoned = Some s0"
    "mi_heap_collect_abandon env0 0x100 st_two_abandoned = Some s'"
    "if page_count (heaps s0 0x100) = 0
     then s' = mi_heap_backing_free 0x100 s0 \<and> 0x100 \<in> freed s' \<and>
          abandoned_stack s' [0x380] \<and> (\<forall>r \<in> set [0x380]. page_count (heaps s' r) \<noteq> 0)
     else abandoned s' = 0x100 \<and> abandoned_next (heaps s' 0x100) = abandoned s0 \<and>
          freed s' = freed s0 \<and> abandoned_stack s' [0x100, 0x380] \<and>
          (\<forall>r \<in> set [0x100, 0x380]. page_count (heaps s' r) \<noteq> 0)"
    by (auto simp: i Let_def)
  have t: "the (mi_heap_collect_abandon env0 0x100 st_two_abandoned) = s'"
    "the (mi_heap_collect_ex env0 0x100 ABANDON st_two_abandoned) = s0"
    using s(1,2) by simp_all
  have st: "abandoned_stack s' [0x100, 0x380]" using s(3) pc by (simp add: t(2))
  have ev: "page_count (heaps (the (mi_heap_collect_abandon env0 0x100 st_two_abandoned)) 0x100) = 2"
    "page_count (heaps (the (mi_heap_collect_abandon env0 0x100 st_two_abandoned)) 0x380) = 1"
    "0x100 \<notin> freed (the (mi_heap_collect_abandon env0 0x100 st_two_abandoned))"
    by (simp_all add: mi_heap_collect_abandon_def mi_heap_collect_ex_def mi_heap_is_initialized_def
      mi_heap_try_reclaim_abandoned_def mi_heap_prepend_abandoned_def reclaim_loop.simps
      abandoned_last.simps
      mi_heap_absorb_def absorb_bin_def mi_page_queue_append_def mi_heap_reset_pages_def
      mi_heap_backing_free_def set_page_heap_def Let_def upt_rec st_two_abandoned_def
      st_abandoned_def example_defs)
  have p: "mi_heap_collect_abandon env0 0x100 st_two_abandoned \<noteq> None"
    "abandoned_stack (the (mi_heap_collect_abandon env0 0x100 st_two_abandoned)) [0x100, 0x380]"
    using s(2) st by (simp_all add: t(1))
  have l: "abandoned_stack st_lone []"
    by (simp add: abandoned_stack_def st_lone_def example_defs)
  have pl: "page_count (heaps (the (mi_heap_collect_ex env0 0x100 ABANDON st_lone)) 0x100) = 0"
    by (simp add: mi_heap_collect_ex_def mi_heap_is_initialized_def
      mi_heap_try_reclaim_abandoned_def st_lone_def example_defs)
  from C8_abandon_keeps_stack_nonempty [of env0 "0x100" st_lone "[]" "\<lambda>_. []"] fr l
  obtain u0 u' where u: "mi_heap_collect_ex env0 0x100 ABANDON st_lone = Some u0"
    "mi_heap_collect_abandon env0 0x100 st_lone = Some u'"
    "if page_count (heaps u0 0x100) = 0
     then u' = mi_heap_backing_free 0x100 u0 \<and> 0x100 \<in> freed u' \<and> abandoned_stack u' []
     else abandoned u' = 0x100 \<and> abandoned_next (heaps u' 0x100) = abandoned u0 \<and>
          freed u' = freed u0 \<and> abandoned_stack u' [0x100] \<and>
          page_count (heaps u' 0x100) \<noteq> 0"
    by (auto simp: i(3) Let_def split: if_splits)
  have tu: "the (mi_heap_collect_abandon env0 0x100 st_lone) = u'"
    "the (mi_heap_collect_ex env0 0x100 ABANDON st_lone) = u0"
    using u(1,2) by simp_all
  have q: "mi_heap_collect_abandon env0 0x100 st_lone \<noteq> None"
    "0x100 \<in> freed (the (mi_heap_collect_abandon env0 0x100 st_lone))"
    "abandoned_stack (the (mi_heap_collect_abandon env0 0x100 st_lone)) []"
    using u(2,3) pl by (auto simp: tu)
  show ?thesis
    by (intro conjI) (fact fr h ev p l q)+
qed

section \<open>C6: \<^verbatim>\<open>mi_heap_destroy\<close> on a heap that may hold reclaimed pages\<close>









section \<open>C2: collect in mode \<^verbatim>\<open>ABANDON\<close>\<close>

text \<open>
  So a collect in mode \<^verbatim>\<open>ABANDON\<close> returns whenever, after the deferred-free hook, the heap does
  not reclaim, or the abandoned stack is empty, or its top heap is walkable.
\<close>

lemma collect_abandon_mode_returns:
  assumes "s1 = mi_deferred_free X heap True s"
    and "no_reclaim (heaps s1 heap) \<or> abandoned s1 = 0 \<or>
         (abandoned_stack s1 (r # rs) \<and> heap \<noteq> r \<and> page_count (heaps s1 r) \<noteq> 0 \<and>
          delayed_list s1 r bs)"
  shows "\<exists>s0. mi_heap_collect_ex X heap ABANDON s = Some s0"
proof -
  have "\<exists>s2. mi_heap_try_reclaim_abandoned X heap False s1 = Some s2"
  proof (cases "no_reclaim (heaps s1 heap) \<or> abandoned s1 = 0")
    case True
    then show ?thesis by (auto simp: mi_heap_try_reclaim_abandoned_def)
  next
    case False
    then show ?thesis
      using assms(2) try_reclaim_pops_one [of s1 heap r rs bs X] by (auto simp: Let_def)
  qed
  then show ?thesis
    by (auto simp: mi_heap_collect_ex_def Let_def assms(1) split: option.split)
qed

text \<open>
  In mode \<^verbatim>\<open>ABANDON\<close> the collect reclaims, whatever the collaborators do: when, after the
  deferred-free hook, the heap may reclaim and the abandoned stack has a walkable top heap \<open>r\<close>
  that holds pages, the collect pops \<open>r\<close>, absorbs it and releases it before it goes on.
\<close>

lemma collect_abandon_mode_reclaims:
  assumes init: "mi_heap_is_initialized s heap" and s1: "s1 = mi_deferred_free X heap True s"
    and nr: "\<not> no_reclaim (heaps s1 heap)" and st: "abandoned_stack s1 (r # rs)"
    and ne: "heap \<noteq> r" and pc: "page_count (heaps s1 r) \<noteq> 0" and dl: "delayed_list s1 r bs"
  shows "\<exists>s2. mi_heap_try_reclaim_abandoned X heap False s1 = Some s2 \<and>
           s2 = (let s4 = absorb_post X heap r bs (reclaim_popped r s1) in
                 mi_heap_backing_free r
                   (mi_segments_absorb X (thread_id (heaps s4 heap)) (tld (heaps s4 heap))
                      (tld (heaps s4 r)) s4)) \<and>
           r \<in> freed s2 \<and>
           mi_heap_collect_ex X heap ABANDON s =
             (let s3 = mi_heap_delayed_free X heap s2;
                  s4 = mi_heap_collect_retired X heap True s3;
                  s5 = mi_segment_thread_collect X (tld (heaps s4 heap)) s4;
                  s6 = (if mi_is_main_thread X s5 then mi_mem_collect X (tld (heaps s5 heap)) s5
                        else s5)
              in Some s6)"
  using init try_reclaim_pops_one [OF nr st ne pc dl, of X]
  by (simp add: mi_heap_collect_ex_def Let_def s1 [symmetric] mi_heap_backing_free_def)

text \<open>
  C2 does not hold of the code: \<^verbatim>\<open>mi_heap_collect_ex\<close> calls
  \<^verbatim>\<open>_mi_heap_try_reclaim_abandoned(heap, collect == FORCE)\<close> in every mode, also in mode
  \<^verbatim>\<open>ABANDON\<close>, against its own comment ``but not when abandoning''. In \<open>st_abandoned\<close> the heap
  0x300 is on the abandoned stack and the collaborators have nothing to do, so a collect that
  did not reclaim would return the state as it is. Collecting the backing heap 0x100 in mode
  \<^verbatim>\<open>ABANDON\<close> instead empties the stack, links the page of 0x300 into the queue of 0x100 and
  releases 0x300.
\<close>

theorem C2_collect_abandon_reclaims:
  "mi_heap_is_initialized st_abandoned 0x100 \<and> abandoned_stack st_abandoned [0x300] \<and>
   mi_heap_collect_ex env0 0x100 ABANDON st_abandoned \<noteq> None \<and>
   abandoned (the (mi_heap_collect_ex env0 0x100 ABANDON st_abandoned)) = 0 \<and>
   0x300 \<in> freed (the (mi_heap_collect_ex env0 0x100 ABANDON st_abandoned)) \<and>
   pages (heaps (the (mi_heap_collect_ex env0 0x100 ABANDON st_abandoned)) 0x100) 0
     = [0x400000, 0x600000] \<and>
   page_count (heaps (the (mi_heap_collect_ex env0 0x100 ABANDON st_abandoned)) 0x100) = 2 \<and>
   page_heap (page_tab (the (mi_heap_collect_ex env0 0x100 ABANDON st_abandoned)) 0x600000) = 0x100"
  by (simp add: mi_heap_collect_ex_def mi_heap_is_initialized_def abandoned_stack_def
      mi_heap_try_reclaim_abandoned_def mi_heap_prepend_abandoned_def reclaim_loop.simps
      mi_heap_absorb_def absorb_bin_def mi_page_queue_append_def mi_heap_reset_pages_def
      mi_heap_backing_free_def set_page_heap_def Let_def upt_rec st_abandoned_def example_defs)

end
